theory Spec2Isabelle
  imports Main "HOL-Library.Word" "HOL-Library.Multiset"
begin

section \<open>bin2ll: chunk classification (cmd/bin2ll/main.go)\<close>

text \<open>
  \<open>bin.Address\<close> is an unsigned 64-bit integer. The order on words is the unsigned one.
\<close>

type_synonym Address = "64 word"

text \<open>
  Errors. \<open>Error s\<close> is an error with the text \<open>s\<close>. \<open>ErrInfo text fn\<close> is the error that
  \<open>errutil.Newf\<close> makes when the function \<open>fn\<close> calls it: the error of the formatted
  \<open>text\<close>, together with the position of the caller, which the library reads from the
  call stack. The library (\<open>github.com/mewkiz/pkg/errutil\<close>) is not among the sources at
  hand. The text that \<open>Error()\<close> gives for such an error is the formatted text behind a
  prefix that shows the position (package and function, file and line, then \<open>error:\<close>,
  with colour escapes when colours are on); the prefix of each calling function is a
  parameter of \<open>Error_text\<close>.
\<close>

datatype error = Error string | ErrInfo string string

definition errutil_Newf :: "string \<Rightarrow> string \<Rightarrow> error" where
  "errutil_Newf fn text = ErrInfo text fn"

fun Error_text :: "(string \<Rightarrow> string) \<Rightarrow> error \<Rightarrow> string" where
  "Error_text prefix (Error s) = s"
| "Error_text prefix (ErrInfo text fn) = prefix fn @ text"

datatype kind = kindNone | kindCode | kindData

record Chunk =
  kind :: kind
  addr :: Address

text \<open>
  The \<open>disassembler\<close> struct. The PE file handle is opaque to this development,
  hence a type parameter.
\<close>

record 'pe disassembler =
  pe_file :: "'pe option"
  funcAddrs :: "Address list"
  blockAddrs :: "Address list"
  chunks :: "Chunk list"

text \<open>
  Modelled from the spec: the \<open>Less\<close> method of \<open>bin.Addresses\<close> (package \<open>bin\<close>, not
  among the sources at hand) orders addresses ascending by numeric value, so
  \<open>sort.Sort(bin.Addresses(xs))\<close> is an ascending sort of \<open>xs\<close>.
\<close>

definition sort_Addresses :: "Address list \<Rightarrow> Address list" where
  "sort_Addresses xs = sort xs"

text \<open>
  \<open>sort.Slice(d.chunks, less)\<close> with \<open>less i j = d.chunks[i].addr < d.chunks[j].addr\<close>.
  Go's \<open>sort.Slice\<close> does not promise an order among elements with equal keys; the
  model uses the library's sort by key, and no theorem below depends on the relative order
  of two chunks of one address.
\<close>

definition sort_Slice_addr :: "Chunk list \<Rightarrow> Chunk list" where
  "sort_Slice_addr cs = sort_key addr cs"

text \<open>The chunk literals of the two loops of \<open>parseFile\<close>, and the loops.\<close>

definition code_chunk :: "Address \<Rightarrow> Chunk" where
  "code_chunk blockAddr = \<lparr>kind = kindCode, addr = blockAddr\<rparr>"

definition data_chunk :: "Address \<Rightarrow> Chunk" where
  "data_chunk dataAddr = \<lparr>kind = kindData, addr = dataAddr\<rparr>"

fun append_code :: "Address list \<Rightarrow> Chunk list \<Rightarrow> Chunk list" where
  "append_code [] cs = cs"
| "append_code (blockAddr # rest) cs =
     append_code rest (cs @ [code_chunk blockAddr])"

fun append_data :: "Address list \<Rightarrow> Chunk list \<Rightarrow> Chunk list" where
  "append_data [] cs = cs"
| "append_data (dataAddr # rest) cs =
     append_data rest (cs @ [data_chunk dataAddr])"

text \<open>
  \<open>parseFile\<close>. What the file system answers is given as arguments: the result of
  \<open>pe.Open(binPath)\<close> and of \<open>parseAddrs\<close> on \<open>funcs.json\<close>, \<open>blocks.json\<close> and
  \<open>data.json\<close>, each either an error or the value read. The checks are made in the
  source's order, and the first error is returned.
\<close>

definition parseFile ::
  "error + 'pe \<Rightarrow> error + Address list \<Rightarrow> error + Address list \<Rightarrow> error + Address list
    \<Rightarrow> error + 'pe disassembler" where
  "parseFile pe_Open funcs_json blocks_json data_json =
     (case pe_Open of
        Inl err \<Rightarrow> Inl err
      | Inr f \<Rightarrow>
        let d = \<lparr>pe_file = Some f, funcAddrs = [], blockAddrs = [], chunks = []\<rparr> in
        (case funcs_json of
           Inl err \<Rightarrow> Inl err
         | Inr funcAddrs0 \<Rightarrow>
           let funcAddrs1 = sort_Addresses funcAddrs0;
               d = d\<lparr>funcAddrs := funcAddrs1\<rparr> in
           (case blocks_json of
              Inl err \<Rightarrow> Inl err
            | Inr blockAddrs0 \<Rightarrow>
              let blockAddrs1 = sort_Addresses blockAddrs0;
                  d = d\<lparr>blockAddrs := blockAddrs1\<rparr> in
              (case data_json of
                 Inl err \<Rightarrow> Inl err
               | Inr dataAddrs0 \<Rightarrow>
                 let dataAddrs1 = sort_Addresses dataAddrs0;
                     d = d\<lparr>chunks := append_code blockAddrs1 (chunks d)\<rparr>;
                     d = d\<lparr>chunks := append_data dataAddrs1 (chunks d)\<rparr>;
                     d = d\<lparr>chunks := sort_Slice_addr (chunks d)\<rparr>
                 in Inr d))))"

text \<open>
  The end of \<open>main\<close>: which functions are decoded. \<open>funcAddr\<close> is the value of the
  \<open>-func\<close> flag, the zero value of \<open>bin.Address\<close> when the flag is not given.
  \<open>decodeFunc\<close> is not among the sources at hand and is a parameter; the loop stops
  at the first error (\<open>log.Fatalf\<close>), after having printed the functions decoded so far.
\<close>

datatype 'fn outcome = ExitUsage | Fatal error "'fn list" | Printed "'fn list"

fun decode_loop ::
  "(Address \<Rightarrow> error + 'fn) \<Rightarrow> Address list \<Rightarrow> 'fn list \<Rightarrow> 'fn outcome" where
  "decode_loop decodeFunc [] out = Printed out"
| "decode_loop decodeFunc (funcAddr # rest) out =
     (case decodeFunc funcAddr of
        Inl err \<Rightarrow> Fatal err out
      | Inr f \<Rightarrow> decode_loop decodeFunc rest (out @ [f]))"

definition flag_value :: "Address option \<Rightarrow> Address" where
  "flag_value opt = (case opt of None \<Rightarrow> 0 | Some a \<Rightarrow> a)"

definition selected_funcAddrs :: "Address \<Rightarrow> 'pe disassembler \<Rightarrow> Address list" where
  "selected_funcAddrs funcAddr d =
     (let funcAddrs = funcAddrs d in
      if funcAddr \<noteq> 0 then [funcAddr] else funcAddrs)"

definition main ::
  "nat \<Rightarrow> Address option \<Rightarrow> error + 'pe disassembler
    \<Rightarrow> ('pe disassembler \<Rightarrow> Address \<Rightarrow> error + 'fn) \<Rightarrow> 'fn outcome" where
  "main NArg func_flag parsed decodeFunc =
     (let funcAddr = flag_value func_flag in
      if NArg \<noteq> 1 then ExitUsage
      else case parsed of
             Inl err \<Rightarrow> Fatal err []
           | Inr d \<Rightarrow> decode_loop (decodeFunc d) (selected_funcAddrs funcAddr d) [])"

section \<open>The statement-level instruction parser (\<open>parseInst\<close>)\<close>

text \<open>
  \<open>x86asm.Op\<close> is the decoder's mnemonic. The five mnemonics the source names are
  constructors; any other mnemonic is carried by its name, which is what \<open>%v\<close> prints.
\<close>

datatype Op = RET | LEA | XOR | PUSH | POP | OtherOp string

fun Op_String :: "Op \<Rightarrow> string" where
  "Op_String RET = ''RET''"
| "Op_String LEA = ''LEA''"
| "Op_String XOR = ''XOR''"
| "Op_String PUSH = ''PUSH''"
| "Op_String POP = ''POP''"
| "Op_String (OtherOp s) = s"

datatype Arg = ArgNil | ArgReg string | ArgImm int | ArgMem string int | ArgRel int

text \<open>
  \<open>x86asm.Inst\<close>: the mnemonic, the four argument places and the encoded length. It has
  no field for the address the instruction was decoded at; the repository's own
  \<open>x86.Inst\<close> pairs it with that address.
\<close>

record x86asm_Inst =
  Op :: Op
  Args :: "Arg \<times> Arg \<times> Arg \<times> Arg"
  Len :: nat

record x86_Inst =
  Inst :: x86asm_Inst
  Addr :: Address

definition Args0 :: "x86asm_Inst \<Rightarrow> Arg" where
  "Args0 inst = fst (Args inst)"

definition Args1 :: "x86asm_Inst \<Rightarrow> Arg" where
  "Args1 inst = fst (snd (Args inst))"

datatype Token = ASSIGN | XOR_tok

datatype 'e Expr = ArgExpr 'e | BinaryExpr "'e Expr" Token "'e Expr"

datatype 'e Stmt = ReturnStmt | AssignStmt "'e Expr list" Token "'e Expr list"

text \<open>
  \<open>getArg\<close> is not among the sources at hand; it is a parameter giving the expression
  of an argument.
\<close>

definition parseLEA :: "(Arg \<Rightarrow> 'e) \<Rightarrow> x86asm_Inst \<Rightarrow> 'e Stmt option \<times> error option" where
  "parseLEA getArg inst =
     (let x = ArgExpr (getArg (Args0 inst));
          y = ArgExpr (getArg (Args1 inst));
          lhs = x;
          rhs = y
      in (Some (AssignStmt [lhs] ASSIGN [rhs]), None))"

text \<open>
  \<open>errutil.Newf("support for opcode %v not yet implemented", inst.Op)\<close>, called by the
  function \<open>fn\<close>.
\<close>

definition not_yet_implemented :: "string \<Rightarrow> Op \<Rightarrow> error" where
  "not_yet_implemented fn op =
     errutil_Newf fn (''support for opcode '' @ Op_String op @ '' not yet implemented'')"

definition parseBinaryInst ::
  "(Arg \<Rightarrow> 'e) \<Rightarrow> x86asm_Inst \<Rightarrow> 'e Stmt option \<times> error option" where
  "parseBinaryInst getArg inst =
     (let x = ArgExpr (getArg (Args0 inst));
          y = ArgExpr (getArg (Args1 inst))
      in case Op inst of
           XOR \<Rightarrow>
             (let op = XOR_tok;
                  lhs = x;
                  rhs = BinaryExpr x op y
              in (Some (AssignStmt [lhs] ASSIGN [rhs]), None))
         | _ \<Rightarrow> (None, Some (not_yet_implemented ''parseBinaryInst'' (Op inst))))"

text \<open>
  \<open>parseInst\<close> returns the statement (or \<open>nil\<close>), the error (or \<open>nil\<close>) and what it
  printed to standard output (the instruction, in the default case).
\<close>

definition parseInst ::
  "(Arg \<Rightarrow> 'e) \<Rightarrow> x86asm_Inst \<Rightarrow> ('e Stmt option \<times> error option) \<times> x86asm_Inst list" where
  "parseInst getArg inst =
     (case Op inst of
        RET \<Rightarrow> ((Some ReturnStmt, None), [])
      | LEA \<Rightarrow> (parseLEA getArg inst, [])
      | XOR \<Rightarrow> (parseBinaryInst getArg inst, [])
      | PUSH \<Rightarrow> ((None, None), [])
      | POP \<Rightarrow> ((None, None), [])
      | OtherOp s \<Rightarrow> ((None, Some (not_yet_implemented ''parseInst'' (Op inst))), [inst]))"

text \<open>
  An instance of \<open>decodeFunc\<close>, which is not among the sources at hand: decoding fails
  at the address 0x402000, with the error of an instruction that has no lifting rule, and
  gives the address itself everywhere else.
\<close>

definition failing_decodeFunc :: "'pe disassembler \<Rightarrow> Address \<Rightarrow> error + Address" where
  "failing_decodeFunc d a =
     (if a = 0x402000
      then Inl (ErrInfo ''support for opcode FSIN not yet implemented'' ''parseInst'')
      else Inr a)"

text \<open>
  A disassembler with three function addresses, and the position prefixes in the form
  that the library prints without colours, for a call at line 26 of a file \<open>parse.go\<close>.
\<close>

definition three_funcs :: "unit disassembler" where
  "three_funcs = \<lparr>pe_file = None, funcAddrs = [0x401000, 0x402000, 0x403000],
     blockAddrs = [], chunks = []\<rparr>"

definition plain_prefix :: "string \<Rightarrow> string" where
  "plain_prefix fn = ''main.'' @ fn @ '' (parse.go:26): error: ''"

section \<open>The lifter's FPU register stack (lift/inst\_fpu.go)\<close>

subsection \<open>The IR under construction\<close>

text \<open>
  The lifter builds LLVM IR through the \<open>llir/llvm\<close> library. Only what \<open>fpush\<close> and
  \<open>liftInstFILD\<close> use is modelled. A value is an integer constant of a type
  (\<open>constant.NewInt\<close>) or the result of an instruction; an instruction is known by its
  number of creation, which stands for the identity of the Go object. The storage places
  the lifter loads from and stores to (\<open>f.st\<close> and the elements of \<open>f.fpuStack\<close>) are
  known by the cell they name.
\<close>

datatype irtype = I8 | X86_FP80

datatype Value = ConstInt int irtype | InstValue nat

type_synonym cell = nat

datatype IntPred = IntEQ | IntNE

datatype Instruction =
    InstLoad nat cell
  | InstStore Value cell
  | InstICmp nat IntPred Value Value
  | InstSub nat Value Value
  | InstSIToFP nat Value irtype

datatype Terminator =
    TermBr nat
  | TermCondBr Value nat nat
  | TermSwitch Value nat "(Value \<times> nat) list"
  | TermUnreachable

record BasicBlock =
  Insts :: "Instruction list"
  Term :: "Terminator option"

text \<open>
  The part of the lifter's \<open>Func\<close> that \<open>fpush\<close> touches; the struct is declared in a
  file of the package that is not among the sources at hand, the fields \<open>cur\<close>, \<open>st\<close>
  and \<open>fpuStack\<close> are the ones \<open>fpush\<close> names. Basic blocks are Go objects shared by
  reference: \<open>heap\<close> holds every block allocated so far, a block is known by its index
  there, \<open>Blocks\<close> lists the blocks appended to the function and \<open>cur\<close> is the block
  under construction. \<open>ninsts\<close> counts the instructions created.
\<close>

record Func =
  heap :: "BasicBlock list"
  Blocks :: "nat list"
  cur :: nat
  st :: cell
  fpuStack :: "cell list"
  ninsts :: nat

text \<open>\<open>&ir.BasicBlock{}\<close>: a fresh block without instructions and without terminator.\<close>

definition new_BasicBlock :: "Func \<Rightarrow> nat \<times> Func" where
  "new_BasicBlock f = (length (heap f), f\<lparr>heap := heap f @ [\<lparr>Insts = [], Term = None\<rparr>]\<rparr>)"

text \<open>
  A method of a block changes the block object. A block index always comes from
  \<open>new_BasicBlock\<close> or is \<open>cur\<close>, so it is below the length of the heap; the theorems
  assume so for \<open>cur\<close>. The methods are those of the library's \<open>ir.BasicBlock\<close>: an
  instruction is appended to the instructions of the block and is its own value, a
  terminator replaces the terminator of the block.
\<close>

definition upd_block :: "nat \<Rightarrow> (BasicBlock \<Rightarrow> BasicBlock) \<Rightarrow> Func \<Rightarrow> Func" where
  "upd_block b g f = f\<lparr>heap := (heap f)[b := g (heap f ! b)]\<rparr>"

definition append_inst :: "nat \<Rightarrow> Instruction \<Rightarrow> Func \<Rightarrow> Func" where
  "append_inst b i f = upd_block b (\<lambda>blk. blk\<lparr>Insts := Insts blk @ [i]\<rparr>) f"

definition set_term :: "nat \<Rightarrow> Terminator \<Rightarrow> Func \<Rightarrow> Func" where
  "set_term b t f = upd_block b (\<lambda>blk. blk\<lparr>Term := Some t\<rparr>) f"

definition NewLoad :: "nat \<Rightarrow> cell \<Rightarrow> Func \<Rightarrow> Value \<times> Func" where
  "NewLoad b src f =
     (InstValue (ninsts f), append_inst b (InstLoad (ninsts f) src) (f\<lparr>ninsts := Suc (ninsts f)\<rparr>))"

definition NewStore :: "nat \<Rightarrow> Value \<Rightarrow> cell \<Rightarrow> Func \<Rightarrow> Func" where
  "NewStore b src dst f = append_inst b (InstStore src dst) f"

definition NewICmp :: "nat \<Rightarrow> IntPred \<Rightarrow> Value \<Rightarrow> Value \<Rightarrow> Func \<Rightarrow> Value \<times> Func" where
  "NewICmp b pred x y f =
     (InstValue (ninsts f),
      append_inst b (InstICmp (ninsts f) pred x y) (f\<lparr>ninsts := Suc (ninsts f)\<rparr>))"

definition NewSub :: "nat \<Rightarrow> Value \<Rightarrow> Value \<Rightarrow> Func \<Rightarrow> Value \<times> Func" where
  "NewSub b x y f =
     (InstValue (ninsts f), append_inst b (InstSub (ninsts f) x y) (f\<lparr>ninsts := Suc (ninsts f)\<rparr>))"

definition NewSIToFP :: "nat \<Rightarrow> Value \<Rightarrow> irtype \<Rightarrow> Func \<Rightarrow> Value \<times> Func" where
  "NewSIToFP b from to f =
     (InstValue (ninsts f),
      append_inst b (InstSIToFP (ninsts f) from to) (f\<lparr>ninsts := Suc (ninsts f)\<rparr>))"

definition NewBr :: "nat \<Rightarrow> nat \<Rightarrow> Func \<Rightarrow> Func" where
  "NewBr b target f = set_term b (TermBr target) f"

definition NewCondBr :: "nat \<Rightarrow> Value \<Rightarrow> nat \<Rightarrow> nat \<Rightarrow> Func \<Rightarrow> Func" where
  "NewCondBr b cond targetTrue targetFalse f = set_term b (TermCondBr cond targetTrue targetFalse) f"

definition NewSwitch :: "nat \<Rightarrow> Value \<Rightarrow> nat \<Rightarrow> (Value \<times> nat) list \<Rightarrow> Func \<Rightarrow> Func" where
  "NewSwitch b x defaultTarget cases f = set_term b (TermSwitch x defaultTarget cases) f"

definition NewUnreachable :: "nat \<Rightarrow> Func \<Rightarrow> Func" where
  "NewUnreachable b f = set_term b TermUnreachable f"

text \<open>
  \<open>f.AppendBlock\<close> is not among the sources at hand. It is taken to append the block to
  the blocks of the function, as the library's method of that name does; no theorem below
  depends on the order of that list.
\<close>

definition AppendBlock :: "nat \<Rightarrow> Func \<Rightarrow> Func" where
  "AppendBlock block f = f\<lparr>Blocks := Blocks f @ [block]\<rparr>"

subsection \<open>\<open>fpush\<close> and \<open>liftInstFILD\<close>\<close>

text \<open>The loop of \<open>fpush\<close> over \<open>f.fpuStack\<close>, with the index \<open>i\<close> of each element.\<close>

fun fpush_loop ::
  "Value \<Rightarrow> nat \<Rightarrow> (nat \<times> cell) list \<Rightarrow> (Value \<times> nat) list \<Rightarrow> Func
    \<Rightarrow> (Value \<times> nat) list \<times> Func" where
  "fpush_loop src end' [] cases f = (cases, f)"
| "fpush_loop src end' ((i, dst) # rest) cases f =
     (let (block, f) = new_BasicBlock f;
          f = NewBr block end' f;
          f = f\<lparr>cur := block\<rparr>;
          f = AppendBlock block f;
          f = NewStore (cur f) src dst f;
          c = (ConstInt (int i) I8, block)
      in fpush_loop src end' rest (cases @ [c]) f)"

definition fpush :: "Value \<Rightarrow> Func \<Rightarrow> Func" where
  "fpush src f =
     (let (tmp1, f) = NewLoad (cur f) (st f) f;
          (targetTrue, f) = new_BasicBlock f;
          (targetFalse, f) = new_BasicBlock f;
          (follow, f) = new_BasicBlock f;
          f = NewBr targetTrue follow f;
          f = NewBr targetFalse follow f;
          zero = ConstInt 0 I8;
          (cond, f) = NewICmp (cur f) IntEQ tmp1 zero f;
          f = NewCondBr (cur f) cond targetTrue targetFalse f;
          f = f\<lparr>cur := targetTrue\<rparr>;
          f = AppendBlock targetTrue f;
          seven = ConstInt 7 I8;
          f = NewStore (cur f) seven (st f) f;
          f = f\<lparr>cur := targetFalse\<rparr>;
          f = AppendBlock targetFalse f;
          one = ConstInt 1 I8;
          (tmp2, f) = NewSub (cur f) tmp1 one f;
          f = NewStore (cur f) tmp2 (st f) f;
          f = f\<lparr>cur := follow\<rparr>;
          f = AppendBlock follow f;
          (end', f) = new_BasicBlock f;
          cur' = cur f;
          (cases, f) = fpush_loop src end' (enumerate 0 (fpuStack f)) [] f;
          f = f\<lparr>cur := cur'\<rparr>;
          (st', f) = NewLoad (cur f) (st f) f;
          (defaultTarget, f) = new_BasicBlock f;
          f = NewUnreachable defaultTarget f;
          f = AppendBlock defaultTarget f;
          f = NewSwitch (cur f) st' defaultTarget cases f;
          f = f\<lparr>cur := end'\<rparr>;
          f = AppendBlock end' f
      in f)"

text \<open>
  \<open>liftInstFILD\<close>. \<open>useArg\<close> and \<open>inst.Arg\<close> are not among the sources at hand:
  \<open>useArg\<close> is a parameter that may emit code and returns the value of the argument.
  The result is the function and the error returned, which is always \<open>nil\<close>.
\<close>

definition liftInstFILD ::
  "('a \<Rightarrow> Func \<Rightarrow> Value \<times> Func) \<Rightarrow> 'a \<Rightarrow> Func \<Rightarrow> Func \<times> error option" where
  "liftInstFILD useArg inst_Arg0 f =
     (let (arg, f) = useArg inst_Arg0 f;
          (src, f) = NewSIToFP (cur f) arg X86_FP80 f;
          f = fpush src f
      in (f, None))"

subsection \<open>Running the IR\<close>

text \<open>
  Run-time values: integers of 1, 8, 16, 32 and 64 bits, and numbers of the extended
  format. \<open>F80V n\<close> is the extended-precision number equal to the integer \<open>n\<close>; the
  format has a significand of 64 bits, so that it holds every integer that
  \<open>sitofp\<close> can be given here exactly.
\<close>

datatype rvalue =
    I1V bool
  | I8V "8 word"
  | I16V "16 word"
  | I32V "32 word"
  | I64V "64 word"
  | F80V int

text \<open>
  The state of a run: the values of the instructions executed, the memory, and the cells
  stored to, in order.
\<close>

record mstate =
  regs :: "nat \<Rightarrow> rvalue option"
  mem :: "cell \<Rightarrow> rvalue option"
  writes :: "cell list"

fun eval :: "(nat \<Rightarrow> rvalue option) \<Rightarrow> Value \<Rightarrow> rvalue option" where
  "eval rg (ConstInt n I8) = Some (I8V (word_of_int n))"
| "eval rg (ConstInt n X86_FP80) = None"
| "eval rg (InstValue r) = rg r"

text \<open>The width and the unsigned reading of an integer value.\<close>

fun int_of_rvalue :: "rvalue \<Rightarrow> (nat \<times> int) option" where
  "int_of_rvalue (I1V b) = Some (1, if b then 1 else 0)"
| "int_of_rvalue (I8V w) = Some (8, uint w)"
| "int_of_rvalue (I16V w) = Some (16, uint w)"
| "int_of_rvalue (I32V w) = Some (32, uint w)"
| "int_of_rvalue (I64V w) = Some (64, uint w)"
| "int_of_rvalue (F80V n) = None"

definition icmp :: "IntPred \<Rightarrow> rvalue \<Rightarrow> rvalue \<Rightarrow> rvalue option" where
  "icmp pred x y =
     (case (int_of_rvalue x, int_of_rvalue y) of
        (Some (w, a), Some (w', b)) \<Rightarrow>
          if w = w' then Some (I1V (case pred of IntEQ \<Rightarrow> a = b | IntNE \<Rightarrow> a \<noteq> b)) else None
      | _ \<Rightarrow> None)"

text \<open>Subtraction wraps around at the width of its operands.\<close>

definition sub :: "rvalue \<Rightarrow> rvalue \<Rightarrow> rvalue option" where
  "sub x y =
     (case x of
        I8V a \<Rightarrow> (case y of I8V b \<Rightarrow> Some (I8V (a - b)) | _ \<Rightarrow> None)
      | I16V a \<Rightarrow> (case y of I16V b \<Rightarrow> Some (I16V (a - b)) | _ \<Rightarrow> None)
      | I32V a \<Rightarrow> (case y of I32V b \<Rightarrow> Some (I32V (a - b)) | _ \<Rightarrow> None)
      | I64V a \<Rightarrow> (case y of I64V b \<Rightarrow> Some (I64V (a - b)) | _ \<Rightarrow> None)
      | _ \<Rightarrow> None)"

fun sitofp :: "rvalue \<Rightarrow> irtype \<Rightarrow> rvalue option" where
  "sitofp (I8V a) X86_FP80 = Some (F80V (sint a))"
| "sitofp (I16V a) X86_FP80 = Some (F80V (sint a))"
| "sitofp (I32V a) X86_FP80 = Some (F80V (sint a))"
| "sitofp (I64V a) X86_FP80 = Some (F80V (sint a))"
| "sitofp x to = None"

definition set_reg :: "nat \<Rightarrow> rvalue option \<Rightarrow> mstate \<Rightarrow> mstate option" where
  "set_reg r v s = (case v of None \<Rightarrow> None | Some x \<Rightarrow> Some (s\<lparr>regs := (regs s)(r \<mapsto> x)\<rparr>))"

fun exec_inst :: "Instruction \<Rightarrow> mstate \<Rightarrow> mstate option" where
  "exec_inst (InstLoad r c) s = set_reg r (mem s c) s"
| "exec_inst (InstStore v c) s =
     (case eval (regs s) v of
        None \<Rightarrow> None
      | Some x \<Rightarrow> Some (s\<lparr>mem := (mem s)(c \<mapsto> x), writes := writes s @ [c]\<rparr>))"
| "exec_inst (InstICmp r pred x y) s =
     (case (eval (regs s) x, eval (regs s) y) of
        (Some a, Some b) \<Rightarrow> set_reg r (icmp pred a b) s
      | _ \<Rightarrow> None)"
| "exec_inst (InstSub r x y) s =
     (case (eval (regs s) x, eval (regs s) y) of
        (Some a, Some b) \<Rightarrow> set_reg r (sub a b) s
      | _ \<Rightarrow> None)"
| "exec_inst (InstSIToFP r x to) s =
     (case eval (regs s) x of
        Some a \<Rightarrow> set_reg r (sitofp a to) s
      | None \<Rightarrow> None)"

text \<open>
  A run ends at the end of a block that has no terminator yet (the place where the
  lifter goes on emitting code), at an \<open>unreachable\<close>, or in an error (a value that
  is missing or of the wrong type); it may also run out of fuel.
\<close>

datatype run_result = Open nat mstate | Trapped mstate | Stuck | OutOfFuel

fun switch_target :: "rvalue \<Rightarrow> nat \<Rightarrow> (Value \<times> nat) list \<Rightarrow> nat" where
  "switch_target v defaultTarget [] = defaultTarget"
| "switch_target v defaultTarget ((x, target) # cases) =
     (if eval (\<lambda>r. None) x = Some v then target else switch_target v defaultTarget cases)"

fun exec_term :: "Terminator \<Rightarrow> mstate \<Rightarrow> run_result + nat" where
  "exec_term (TermBr target) s = Inr target"
| "exec_term (TermCondBr cond targetTrue targetFalse) s =
     (case eval (regs s) cond of
        Some (I1V c) \<Rightarrow> Inr (if c then targetTrue else targetFalse)
      | _ \<Rightarrow> Inl Stuck)"
| "exec_term (TermSwitch x defaultTarget cases) s =
     (case eval (regs s) x of
        Some v \<Rightarrow> Inr (switch_target v defaultTarget cases)
      | None \<Rightarrow> Inl Stuck)"
| "exec_term TermUnreachable s = Inl (Trapped s)"

text \<open>A configuration: the block, the index of the next instruction in it, the state.\<close>

type_synonym config = "nat \<times> nat \<times> mstate"

fun step :: "BasicBlock list \<Rightarrow> config \<Rightarrow> run_result + config" where
  "step h (b, i, s) =
     (if length h \<le> b then Inl Stuck
      else if i < length (Insts (h ! b)) then
        (case exec_inst (Insts (h ! b) ! i) s of
           None \<Rightarrow> Inl Stuck
         | Some s' \<Rightarrow> Inr (b, Suc i, s'))
      else
        (case Term (h ! b) of
           None \<Rightarrow> Inl (Open b s)
         | Some t \<Rightarrow>
             (case exec_term t s of
                Inl r \<Rightarrow> Inl r
              | Inr b' \<Rightarrow> Inr (b', 0, s))))"

fun run :: "nat \<Rightarrow> BasicBlock list \<Rightarrow> config \<Rightarrow> run_result" where
  "run 0 h c = OutOfFuel"
| "run (Suc n) h c = (case step h c of Inl r \<Rightarrow> r | Inr c' \<Rightarrow> run n h c')"

text \<open>The configuration after exactly \<open>n\<close> steps, if the run goes that far.\<close>

fun steps :: "nat \<Rightarrow> BasicBlock list \<Rightarrow> config \<Rightarrow> config option" where
  "steps 0 h c = Some c"
| "steps (Suc n) h c = (case step h c of Inl r \<Rightarrow> None | Inr c' \<Rightarrow> steps n h c')"

text \<open>The place where the code emitted after \<open>f\<close> starts.\<close>

definition cursor :: "Func \<Rightarrow> nat \<times> nat" where
  "cursor f = (cur f, length (Insts (heap f ! cur f)))"

text \<open>Successive pushes, as the lifter does for successive instructions.\<close>

definition fpush_all :: "Value list \<Rightarrow> Func \<Rightarrow> Func" where
  "fpush_all srcs f = foldl (\<lambda>f src. fpush src f) f srcs"
subsection \<open>The code of one push, block by block\<close>

text \<open>
  What \<open>fpush\<close> does to the blocks, written out: the block under construction gets the
  load of the pointer, the comparison with zero and the conditional branch
  (\<open>entry_block\<close>), and the new blocks are, in the order of their allocation,
  \<open>targetTrue\<close>, \<open>targetFalse\<close>, \<open>follow\<close>, \<open>end\<close>, one block for each element of
  \<open>f.fpuStack\<close> (\<open>case_block\<close>) and \<open>defaultTarget\<close>. That \<open>fpush\<close> yields exactly these
  is proved below (\<open>fpush_closed\<close>).
\<close>

definition case_block :: "Value \<Rightarrow> nat \<Rightarrow> cell \<Rightarrow> BasicBlock" where
  "case_block src e dst = \<lparr>Insts = [InstStore src dst], Term = Some (TermBr e)\<rparr>"

definition entry_block :: "Func \<Rightarrow> BasicBlock" where
  "entry_block f =
     (heap f ! cur f)\<lparr>Insts := Insts (heap f ! cur f) @
         [InstLoad (ninsts f) (st f),
          InstICmp (Suc (ninsts f)) IntEQ (InstValue (ninsts f)) (ConstInt 0 I8)],
       Term := Some (TermCondBr (InstValue (Suc (ninsts f)))
          (length (heap f)) (length (heap f) + 1))\<rparr>"

definition new_blocks :: "Value \<Rightarrow> Func \<Rightarrow> BasicBlock list" where
  "new_blocks src f =
     (let n = length (heap f); r = ninsts f in
      [\<lparr>Insts = [InstStore (ConstInt 7 I8) (st f)], Term = Some (TermBr (n + 2))\<rparr>,
       \<lparr>Insts = [InstSub (r + 2) (InstValue r) (ConstInt 1 I8),
                 InstStore (InstValue (r + 2)) (st f)], Term = Some (TermBr (n + 2))\<rparr>,
       \<lparr>Insts = [InstLoad (r + 3) (st f)],
         Term = Some (TermSwitch (InstValue (r + 3)) (n + 4 + length (fpuStack f))
           (map (\<lambda>i. (ConstInt (int i) I8, n + 4 + i)) [0 ..< length (fpuStack f)]))\<rparr>,
       \<lparr>Insts = [], Term = None\<rparr>]
      @ map (case_block src (n + 3)) (fpuStack f)
      @ [\<lparr>Insts = [], Term = Some TermUnreachable\<rparr>])"

subsection \<open>The register stack, as the emitted code is to behave\<close>

text \<open>
  The pointer after a push: 7 when it was 0, one less otherwise.
\<close>

definition dec_ptr :: "8 word \<Rightarrow> 8 word" where
  "dec_ptr p = (if p = 0 then 7 else p - 1)"

text \<open>
  A value can be used by code emitted after the first \<open>n\<close> instructions when it is a
  constant or one of these instructions.
\<close>

fun value_ok :: "nat \<Rightarrow> Value \<Rightarrow> bool" where
  "value_ok n (ConstInt x t) = True"
| "value_ok n (InstValue r) = (r < n)"

text \<open>
  The memory after pushing the values \<open>vs\<close> one after the other from pointer \<open>p\<close>, and
  the cells written by \<open>n\<close> pushes, in order: each push writes the pointer cell, then the
  slot of the new pointer.
\<close>

fun stack_mem ::
  "cell \<Rightarrow> cell list \<Rightarrow> 8 word \<Rightarrow> rvalue list \<Rightarrow> (cell \<Rightarrow> rvalue option) \<Rightarrow> (cell \<Rightarrow> rvalue option)" where
  "stack_mem stc slots p [] m = m"
| "stack_mem stc slots p (v # vs) m =
     stack_mem stc slots (dec_ptr p) vs (m(stc \<mapsto> I8V (dec_ptr p), slots ! unat (dec_ptr p) \<mapsto> v))"

fun stack_writes :: "cell \<Rightarrow> cell list \<Rightarrow> 8 word \<Rightarrow> nat \<Rightarrow> cell list" where
  "stack_writes stc slots p 0 = []"
| "stack_writes stc slots p (Suc n) =
     [stc, slots ! unat (dec_ptr p)] @ stack_writes stc slots (dec_ptr p) n"

subsection \<open>An example function and state\<close>

text \<open>
  A function at the start of lifting: one empty entry block, the pointer in cell 100 and
  the eight slots in the cells 200 to 207. The state holds pointer \<open>p\<close> and nothing else.
\<close>

definition entry_Func :: Func where
  "entry_Func = \<lparr>heap = [\<lparr>Insts = [], Term = None\<rparr>], Blocks = [0], cur = 0, st = 100,
     fpuStack = [200, 201, 202, 203, 204, 205, 206, 207], ninsts = 0\<rparr>"

definition start_state :: "8 word \<Rightarrow> mstate" where
  "start_state p = \<lparr>regs = (\<lambda>r. None), mem = [100 \<mapsto> I8V p], writes = []\<rparr>"

text \<open>
  An instance of \<open>useArg\<close> for an argument that is a value already: no code is emitted.
\<close>

definition useArg_value :: "Value \<Rightarrow> Func \<Rightarrow> Value \<times> Func" where
  "useArg_value a f = (a, f)"

section \<open>Properties of chunk classification\<close>

lemma append_code_eq: "append_code bs cs = cs @ map code_chunk bs"
  by (induction bs arbitrary: cs) simp_all

lemma append_data_eq: "append_data ds cs = cs @ map data_chunk ds"
  by (induction ds arbitrary: cs) simp_all

lemma addr_code_chunk: "addr (code_chunk a) = a"
  by (simp add: code_chunk_def)

lemma addr_data_chunk: "addr (data_chunk a) = a"
  by (simp add: data_chunk_def)

lemma parseFile_ok:
  "parseFile (Inr f) (Inr funcs) (Inr blocks) (Inr datas) =
     Inr \<lparr>pe_file = Some f, funcAddrs = sort funcs, blockAddrs = sort blocks,
          chunks = sort_key addr (map code_chunk (sort blocks) @ map data_chunk (sort datas))\<rparr>"
  by (simp add: parseFile_def Let_def sort_Addresses_def sort_Slice_addr_def append_code_eq
      append_data_eq)

lemma filter_eq_distinct: "distinct xs \<Longrightarrow> a \<in> set xs \<Longrightarrow> filter (\<lambda>x. x = a) xs = [a]"
  by (induction xs) (auto simp: filter_empty_conv)

lemma chunks_code_only:
  assumes "distinct blocks" "a \<in> set blocks" "a \<notin> set datas"
  shows "filter (\<lambda>c. addr c = a)
           (sort_key addr (map code_chunk (sort blocks) @ map data_chunk (sort datas)))
         = [code_chunk a]"
proof -
  have "filter (\<lambda>c. addr c = a) (map code_chunk (sort blocks))
        = map code_chunk (filter (\<lambda>x. x = a) (sort blocks))"
    by (simp add: filter_map comp_def addr_code_chunk)
  also have "\<dots> = [code_chunk a]" using assms by (simp add: filter_eq_distinct)
  finally have 1: "filter (\<lambda>c. addr c = a) (map code_chunk (sort blocks)) = [code_chunk a]" .
  have 2: "filter (\<lambda>c. addr c = a) (map data_chunk (sort datas)) = []"
    using assms by (auto simp: filter_empty_conv addr_data_chunk)
  show ?thesis by (simp add: filter_sort 1 2)
qed

lemma chunks_data_only:
  assumes "distinct datas" "a \<in> set datas" "a \<notin> set blocks"
  shows "filter (\<lambda>c. addr c = a)
           (sort_key addr (map code_chunk (sort blocks) @ map data_chunk (sort datas)))
         = [data_chunk a]"
proof -
  have "filter (\<lambda>c. addr c = a) (map data_chunk (sort datas))
        = map data_chunk (filter (\<lambda>x. x = a) (sort datas))"
    by (simp add: filter_map comp_def addr_data_chunk)
  also have "\<dots> = [data_chunk a]" using assms by (simp add: filter_eq_distinct)
  finally have 1: "filter (\<lambda>c. addr c = a) (map data_chunk (sort datas)) = [data_chunk a]" .
  have 2: "filter (\<lambda>c. addr c = a) (map code_chunk (sort blocks)) = []"
    using assms by (auto simp: filter_empty_conv addr_code_chunk)
  show ?thesis by (simp add: filter_sort 1 2)
qed

lemma chunk_addrs_mset:
  "mset (map addr (sort_key addr (map code_chunk (sort blocks) @ map data_chunk (sort datas))))
     = mset (blocks @ datas)"
proof -
  have "map addr (map code_chunk (sort blocks)) = sort blocks"
    by (simp add: comp_def addr_code_chunk)
  moreover have "map addr (map data_chunk (sort datas)) = sort datas"
    by (simp add: comp_def addr_data_chunk)
  ultimately have "mset (map addr (map code_chunk (sort blocks) @ map data_chunk (sort datas)))
       = mset (blocks @ datas)"
    by (simp del: map_map)
  then show ?thesis by (simp del: map_map map_append)
qed

lemma chunk_addrs_distinct:
  "distinct (map addr (sort_key addr (map code_chunk (sort blocks) @ map data_chunk (sort datas))))
     \<longleftrightarrow> distinct blocks \<and> distinct datas \<and> set blocks \<inter> set datas = {}"
  using mset_eq_imp_distinct_iff [OF chunk_addrs_mset [of blocks datas]] by simp

text \<open>
  A sorted block list that repeats an address shares no address with an empty data list,
  yet the chunk sequence is not strictly ascending: the repeated address has two chunks.
\<close>

theorem repeated_block_two_chunks:
  "sorted [0x1000, 0x1000 :: Address] \<and> sorted ([] :: Address list)
   \<and> set [0x1000, 0x1000 :: Address] \<inter> set [] = {}
   \<and> \<not> sorted_wrt (<) (map addr (chunks (projr
          (parseFile (Inr ()) (Inr []) (Inr [0x1000, 0x1000]) (Inr [])))))
   \<and> filter (\<lambda>c. addr c = 0x1000) (chunks (projr
          (parseFile (Inr ()) (Inr []) (Inr [0x1000, 0x1000]) (Inr []))))
       = [\<lparr>kind = kindCode, addr = 0x1000\<rparr>, \<lparr>kind = kindCode, addr = 0x1000\<rparr>]"
  by (simp add: parseFile_ok code_chunk_def)

text \<open>
  Claim C4, as the code has it. When the basic-block list and the data list have each no
  repeated address and share none, \<open>parseFile\<close> succeeds and its chunk sequence is
  strictly ascending by address, has as many chunks as there are input addresses, holds
  for every basic-block address exactly one chunk, of kind code, and for every data
  address exactly one chunk, of kind data, and has no chunk at any other address: a
  function start that is neither a block start nor a data start has no chunk. The lists
  need not be given sorted, the code sorts them.
\<close>

theorem chunks_classified:
  assumes "distinct blocks" "distinct datas" "set blocks \<inter> set datas = {}"
  shows "\<exists>d. parseFile (Inr f) (Inr funcs) (Inr blocks) (Inr datas) = Inr d
     \<and> sorted_wrt (<) (map addr (chunks d))
     \<and> length (chunks d) = length blocks + length datas
     \<and> (\<forall>a \<in> set blocks. filter (\<lambda>c. addr c = a) (chunks d) = [\<lparr>kind = kindCode, addr = a\<rparr>])
     \<and> (\<forall>a \<in> set datas. filter (\<lambda>c. addr c = a) (chunks d) = [\<lparr>kind = kindData, addr = a\<rparr>])
     \<and> addr ` set (chunks d) = set blocks \<union> set datas"
proof -
  let ?cs = "sort_key addr (map code_chunk (sort blocks) @ map data_chunk (sort datas))"
  have "sorted (map addr ?cs)" by simp
  then have s: "sorted_wrt (<) (map addr ?cs)"
    using assms chunk_addrs_distinct [of blocks datas]
    by (simp add: strict_sorted_iff del: sorted_sort_key)
  have l: "length ?cs = length blocks + length datas" by simp
  have c: "\<forall>a \<in> set blocks. filter (\<lambda>c. addr c = a) ?cs = [code_chunk a]"
    using assms chunks_code_only by blast
  have d: "\<forall>a \<in> set datas. filter (\<lambda>c. addr c = a) ?cs = [data_chunk a]"
    using assms chunks_data_only by blast
  have "set (map addr ?cs) = set (blocks @ datas)"
    using chunk_addrs_mset [of blocks datas] by (rule mset_eq_setD)
  then have a: "addr ` set ?cs = set blocks \<union> set datas" by simp
  show ?thesis
    unfolding parseFile_ok using s l c d a by (simp add: code_chunk_def data_chunk_def)
qed

theorem chunks_classified_witness:
  "distinct [0x1010, 0x1000 :: Address] \<and> distinct [0x2000 :: Address]
   \<and> set [0x1010, 0x1000 :: Address] \<inter> set [0x2000] = {}
   \<and> (\<exists>d. parseFile (Inr ()) (Inr [0x1000]) (Inr [0x1010, 0x1000]) (Inr [0x2000]) = Inr d
     \<and> sorted_wrt (<) (map addr (chunks d))
     \<and> length (chunks d) = length [0x1010, 0x1000 :: Address] + length [0x2000 :: Address]
     \<and> (\<forall>a \<in> set [0x1010, 0x1000]. filter (\<lambda>c. addr c = a) (chunks d) = [\<lparr>kind = kindCode, addr = a\<rparr>])
     \<and> (\<forall>a \<in> set [0x2000]. filter (\<lambda>c. addr c = a) (chunks d) = [\<lparr>kind = kindData, addr = a\<rparr>])
     \<and> addr ` set (chunks d) = set [0x1010, 0x1000] \<union> set [0x2000])"
  using chunks_classified [of "[0x1010, 0x1000]" "[0x2000]" "()" "[0x1000]"] by simp

text \<open>The example of the specification: block starts 0x1000 and 0x1010, data start 0x2000.\<close>

lemma spec_example:
  "parseFile (Inr ()) (Inr [0x1000]) (Inr [0x1010, 0x1000]) (Inr [0x2000]) =
     Inr \<lparr>pe_file = Some (), funcAddrs = [0x1000], blockAddrs = [0x1000, 0x1010],
       chunks = [code_chunk 0x1000, code_chunk 0x1010, data_chunk 0x2000]\<rparr>"
  by (simp add: parseFile_ok addr_code_chunk addr_data_chunk)

text \<open>
  An address given both as a block start and as a data start is not rejected: \<open>parseFile\<close>
  returns a disassembler whose chunks are a code chunk and a data chunk of that address.
\<close>

theorem shared_address_not_rejected:
  "\<not> isl (parseFile (Inr ()) (Inr []) (Inr [0x1000]) (Inr [0x1000]))
   \<and> set (chunks (projr (parseFile (Inr ()) (Inr []) (Inr [0x1000]) (Inr [0x1000]))))
       = {\<lparr>kind = kindCode, addr = 0x1000\<rparr>, \<lparr>kind = kindData, addr = 0x1000\<rparr>}"
  by (simp add: parseFile_ok code_chunk_def data_chunk_def)

text \<open>
  Claim C5, as the code has it. If an address is in both the basic-block list and the
  data list, \<open>parseFile\<close> still succeeds, and the chunk sequence holds both a code chunk
  and a data chunk of that address.
\<close>

theorem shared_address_both_chunks:
  assumes "a \<in> set blocks" "a \<in> set datas"
  shows "\<exists>d. parseFile (Inr f) (Inr funcs) (Inr blocks) (Inr datas) = Inr d
       \<and> \<lparr>kind = kindCode, addr = a\<rparr> \<in> set (chunks d)
       \<and> \<lparr>kind = kindData, addr = a\<rparr> \<in> set (chunks d)"
  using assms unfolding parseFile_ok by (auto simp: code_chunk_def data_chunk_def)

theorem shared_address_both_chunks_witness:
  "(0x1000 :: Address) \<in> set [0x1000, 0x1010] \<and> (0x1000 :: Address) \<in> set [0x2000, 0x1000]
   \<and> (\<exists>d. parseFile (Inr ()) (Inr []) (Inr [0x1000, 0x1010]) (Inr [0x2000, 0x1000]) = Inr d
       \<and> \<lparr>kind = kindCode, addr = 0x1000\<rparr> \<in> set (chunks d)
       \<and> \<lparr>kind = kindData, addr = 0x1000\<rparr> \<in> set (chunks d))"
  using shared_address_both_chunks [of "0x1000" "[0x1000, 0x1010]" "[0x2000, 0x1000]" "()" "[]"] by simp

text \<open>
  A repeated block start is kept twice: neither the block addresses nor the chunk
  addresses are free of duplicates then.
\<close>

theorem duplicates_kept:
  "\<not> distinct (blockAddrs (projr (parseFile (Inr ()) (Inr []) (Inr [0x1000, 0x1000]) (Inr []))))
   \<and> \<not> distinct (map addr (chunks (projr
          (parseFile (Inr ()) (Inr []) (Inr [0x1000, 0x1000]) (Inr [])))))"
  by (simp add: parseFile_ok addr_code_chunk)

text \<open>
  Claim C6, as the code has it. For all address lists read, the function addresses, the
  block addresses and the chunk addresses of the disassembler are sorted ascending. Nothing
  removes duplicates: the function (block) addresses are free of duplicates exactly when
  the list read is, and the chunk addresses are exactly when the block list and the data
  list are free of duplicates and share no address.
\<close>

theorem collections_sorted:
  "\<exists>d. parseFile (Inr f) (Inr funcs) (Inr blocks) (Inr datas) = Inr d
     \<and> sorted (funcAddrs d) \<and> sorted (blockAddrs d) \<and> sorted (map addr (chunks d))
     \<and> (distinct (funcAddrs d) \<longleftrightarrow> distinct funcs)
     \<and> (distinct (blockAddrs d) \<longleftrightarrow> distinct blocks)
     \<and> (distinct (map addr (chunks d))
          \<longleftrightarrow> distinct blocks \<and> distinct datas \<and> set blocks \<inter> set datas = {})"
  unfolding parseFile_ok using chunk_addrs_distinct [of blocks datas] by simp

theorem collections_sorted_witness:
  "\<exists>d. parseFile (Inr ()) (Inr [7, 3, 7]) (Inr [5, 2]) (Inr [9, 5]) = Inr d
     \<and> sorted (funcAddrs d) \<and> sorted (blockAddrs d) \<and> sorted (map addr (chunks d))
     \<and> \<not> distinct (funcAddrs d) \<and> distinct (blockAddrs d) \<and> \<not> distinct (map addr (chunks d))"
  using collections_sorted [of "()" "[7, 3, 7]" "[5, 2]" "[9, 5]"] by simp

section \<open>Properties of \<open>parseInst\<close> and \<open>main\<close>\<close>

text \<open>
  The same instruction decoded at two addresses gives the same result of \<open>parseInst\<close>:
  the error names the mnemonic and cannot tell the address. Its text is shown with the
  position prefix of the call in \<open>parseInst\<close>.
\<close>

theorem unsupported_error_ignores_address:
  "Addr \<lparr>Inst = \<lparr>Op = OtherOp ''NOP'', Args = (ArgNil, ArgNil, ArgNil, ArgNil), Len = 1\<rparr>, Addr = 0x401000\<rparr> \<noteq> Addr \<lparr>Inst = \<lparr>Op = OtherOp ''NOP'', Args = (ArgNil, ArgNil, ArgNil, ArgNil), Len = 1\<rparr>, Addr = 0x402000\<rparr>
   \<and> parseInst (\<lambda>a. a) (Inst \<lparr>Inst = \<lparr>Op = OtherOp ''NOP'', Args = (ArgNil, ArgNil, ArgNil, ArgNil), Len = 1\<rparr>, Addr = 0x401000\<rparr>)
     = parseInst (\<lambda>a. a) (Inst \<lparr>Inst = \<lparr>Op = OtherOp ''NOP'', Args = (ArgNil, ArgNil, ArgNil, ArgNil), Len = 1\<rparr>, Addr = 0x402000\<rparr>)
   \<and> snd (fst (parseInst (\<lambda>a. a) (Inst \<lparr>Inst = \<lparr>Op = OtherOp ''NOP'', Args = (ArgNil, ArgNil, ArgNil, ArgNil), Len = 1\<rparr>, Addr = 0x401000\<rparr>)))
     = Some (ErrInfo ''support for opcode NOP not yet implemented'' ''parseInst'')
   \<and> map_option (Error_text plain_prefix)
        (snd (fst (parseInst (\<lambda>a. a) (Inst \<lparr>Inst = \<lparr>Op = OtherOp ''NOP'', Args = (ArgNil, ArgNil, ArgNil, ArgNil), Len = 1\<rparr>, Addr = 0x401000\<rparr>))))
     = Some ''main.parseInst (parse.go:26): error: support for opcode NOP not yet implemented''"
  by (simp add: parseInst_def not_yet_implemented_def errutil_Newf_def plain_prefix_def)

lemma decode_loop_fails:
  assumes "list_all2 (\<lambda>a fn. decodeFunc a = Inr fn) pre fs" "decodeFunc a = Inl err"
  shows "decode_loop decodeFunc (pre @ a # rest) out = Fatal err (out @ fs)"
  using assms
proof (induction pre arbitrary: fs out)
  case Nil
  then show ?case by simp
next
  case (Cons b pre)
  then obtain fn fs' where "fs = fn # fs'" "decodeFunc b = Inr fn"
    "list_all2 (\<lambda>a fn. decodeFunc a = Inr fn) pre fs'"
    by (auto simp: list_all2_Cons1)
  then show ?case using Cons.IH [of fs' "out @ [fn]"] Cons.prems(2) by simp
qed

text \<open>
  Claim C7, as the code has it. For an instruction whose mnemonic is none of RET, LEA, XOR,
  PUSH and POP, \<open>parseInst\<close> fails: it returns no statement and the error that
  \<open>errutil.Newf\<close> makes of "support for opcode M not yet implemented", where M is the
  mnemonic, and it prints the instruction. The text of the error is this message behind
  the position prefix of the call; it names the mnemonic, and nothing in the error depends
  on the address of the instruction. A function whose decoding fails is not added to the
  output: the loop of \<open>main\<close> stops with the error, and the functions printed are
  exactly those decoded before the failing one.
\<close>

theorem unsupported_opcode_error:
  assumes "Op inst \<notin> {RET, LEA, XOR, PUSH, POP}"
    and "list_all2 (\<lambda>a fn. decodeFunc d a = Inr fn) pre fs"
    and "decodeFunc d a = Inl err"
    and "selected_funcAddrs (flag_value func_flag) d = pre @ a # rest"
  shows "parseInst getArg inst =
      ((None, Some (ErrInfo (''support for opcode '' @ Op_String (Op inst) @ '' not yet implemented'')
                      ''parseInst'')),
       [inst])
    \<and> map_option (Error_text prefix) (snd (fst (parseInst getArg inst)))
        = Some (prefix ''parseInst'' @ ''support for opcode '' @ Op_String (Op inst)
                  @ '' not yet implemented'')
    \<and> decode_loop (decodeFunc d) (pre @ a # rest) out = Fatal err (out @ fs)
    \<and> main 1 func_flag (Inr d) decodeFunc = Fatal err fs"
proof -
  have p: "parseInst getArg inst =
      ((None, Some (ErrInfo (''support for opcode '' @ Op_String (Op inst) @ '' not yet implemented'')
                      ''parseInst'')),
       [inst])"
    using assms(1)
    by (cases "Op inst") (simp_all add: parseInst_def not_yet_implemented_def errutil_Newf_def)
  have l: "decode_loop (decodeFunc d) (pre @ a # rest) out = Fatal err (out @ fs)" for out
    using decode_loop_fails [OF assms(2,3)] .
  have m: "main 1 func_flag (Inr d) decodeFunc = Fatal err fs"
    using l [of "[]"] by (simp add: main_def assms(4))
  show ?thesis using l m by (simp add: p)
qed

theorem unsupported_opcode_error_witness:
  "Op \<lparr>Op = OtherOp ''FSIN'', Args = (ArgNil, ArgNil, ArgNil, ArgNil), Len = 2\<rparr> \<notin> {RET, LEA, XOR, PUSH, POP}
   \<and> list_all2 (\<lambda>a fn. failing_decodeFunc three_funcs a = Inr fn) [0x401000] [0x401000]
   \<and> failing_decodeFunc three_funcs 0x402000
       = Inl (ErrInfo ''support for opcode FSIN not yet implemented'' ''parseInst'')
   \<and> selected_funcAddrs (flag_value None) three_funcs = [0x401000] @ 0x402000 # [0x403000]
   \<and> parseInst (\<lambda>a. a) \<lparr>Op = OtherOp ''FSIN'', Args = (ArgNil, ArgNil, ArgNil, ArgNil), Len = 2\<rparr>
     = ((None, Some (ErrInfo ''support for opcode FSIN not yet implemented'' ''parseInst'')), [\<lparr>Op = OtherOp ''FSIN'', Args = (ArgNil, ArgNil, ArgNil, ArgNil), Len = 2\<rparr>])
   \<and> map_option (Error_text plain_prefix) (snd (fst (parseInst (\<lambda>a. a) \<lparr>Op = OtherOp ''FSIN'', Args = (ArgNil, ArgNil, ArgNil, ArgNil), Len = 2\<rparr>)))
     = Some ''main.parseInst (parse.go:26): error: support for opcode FSIN not yet implemented''
   \<and> main 1 None (Inr three_funcs) failing_decodeFunc
     = Fatal (ErrInfo ''support for opcode FSIN not yet implemented'' ''parseInst'') [0x401000]"
proof -
  have h: "Op \<lparr>Op = OtherOp ''FSIN'', Args = (ArgNil, ArgNil, ArgNil, ArgNil), Len = 2\<rparr> \<notin> {RET, LEA, XOR, PUSH, POP}"
    "list_all2 (\<lambda>a fn. failing_decodeFunc three_funcs a = Inr fn) [0x401000] [0x401000]"
    "failing_decodeFunc three_funcs 0x402000
       = Inl (ErrInfo ''support for opcode FSIN not yet implemented'' ''parseInst'')"
    "selected_funcAddrs (flag_value None) three_funcs = [0x401000] @ 0x402000 # [0x403000]"
    by (simp_all add: failing_decodeFunc_def flag_value_def selected_funcAddrs_def three_funcs_def)
  show ?thesis
    using h unsupported_opcode_error [where decodeFunc = failing_decodeFunc and d = three_funcs
        and pre = "[0x401000]" and a = "0x402000" and rest = "[0x403000]" and func_flag = None
        and getArg = "\<lambda>a. a" and prefix = plain_prefix and out = "[]", OF h]
    by (simp add: plain_prefix_def)
qed

text \<open>
  Claim C9. For PUSH and for POP, \<open>parseInst\<close> returns no statement and no error, and
  prints nothing.
\<close>

theorem push_pop_elided:
  assumes "Op inst = PUSH \<or> Op inst = POP"
  shows "parseInst getArg inst = ((None, None), [])"
  using assms by (auto simp: parseInst_def)

theorem push_pop_elided_witness:
  "(Op \<lparr>Op = PUSH, Args = (ArgReg ''EBP'', ArgNil, ArgNil, ArgNil), Len = 1\<rparr> = PUSH
    \<or> Op \<lparr>Op = PUSH, Args = (ArgReg ''EBP'', ArgNil, ArgNil, ArgNil), Len = 1\<rparr> = POP)
   \<and> parseInst (\<lambda>a. a) \<lparr>Op = PUSH, Args = (ArgReg ''EBP'', ArgNil, ArgNil, ArgNil), Len = 1\<rparr>
       = ((None, None), [])"
  using push_pop_elided [of "\<lparr>Op = PUSH, Args = (ArgReg ''EBP'', ArgNil, ArgNil, ArgNil), Len = 1\<rparr>" "\<lambda>a. a"]
  by simp

text \<open>
  Claim C10. The \<open>-func\<close> flag given as 0 behaves as the flag not given: in both cases
  \<open>main\<close> decodes the full list of function addresses, and only a nonzero flag selects
  the single function of that address.
\<close>

theorem func_flag_zero:
  "main NArg (Some 0) parsed decodeFunc = main NArg None parsed decodeFunc
   \<and> selected_funcAddrs (flag_value (Some 0)) d = funcAddrs d
   \<and> selected_funcAddrs (flag_value None) d = funcAddrs d
   \<and> (a \<noteq> 0 \<longrightarrow> selected_funcAddrs (flag_value (Some a)) d = [a])
   \<and> main 1 (Some 0) (Inr d) decodeFunc = decode_loop (decodeFunc d) (funcAddrs d) []"
  by (simp add: main_def flag_value_def selected_funcAddrs_def)

theorem func_flag_zero_witness:
  "main 1 (Some 0) (Inr \<lparr>pe_file = None :: unit option, funcAddrs = [0, 0x401000],
       blockAddrs = [], chunks = []\<rparr>) (\<lambda>d a. Inr a)
     = Printed [0, 0x401000]
   \<and> main 1 (Some 0x401000) (Inr \<lparr>pe_file = None :: unit option, funcAddrs = [0, 0x401000],
       blockAddrs = [], chunks = []\<rparr>) (\<lambda>d a. Inr a)
     = Printed [0x401000]
   \<and> (0x401000 :: Address) \<noteq> 0
   \<and> selected_funcAddrs (flag_value (Some 0x401000))
         \<lparr>pe_file = None :: unit option, funcAddrs = [0, 0x401000], blockAddrs = [], chunks = []\<rparr>
       = [0x401000]"
  using func_flag_zero [of 1 "Inr \<lparr>pe_file = None :: unit option, funcAddrs = [0, 0x401000],
       blockAddrs = [], chunks = []\<rparr>" "\<lambda>d a. Inr a" "\<lparr>pe_file = None :: unit option, funcAddrs = [0, 0x401000],
       blockAddrs = [], chunks = []\<rparr>" "0x401000"]
  by (simp add: main_def flag_value_def selected_funcAddrs_def)

section \<open>Properties of the lifter's register stack\<close>

subsection \<open>What \<open>fpush\<close> emits\<close>

lemma map_add_upt_Suc:
  "map (\<lambda>k. n + k) [0 ..< Suc m] = n # map (\<lambda>k. Suc n + k) [0 ..< m]"
proof -
  have "[0 ..< Suc m] = 0 # map Suc [0 ..< m]"
    by (simp add: upt_conv_Cons map_Suc_upt del: upt_Suc)
  then show ?thesis by (simp add: comp_def del: upt_Suc)
qed

lemma fpush_loop_closed:
  "fpush_loop src e xs cases f =
     (cases @ map (\<lambda>(k, i). (ConstInt (int i) I8, length (heap f) + k)) (enumerate 0 (map fst xs)),
      f\<lparr>heap := heap f @ map (\<lambda>(i, dst). case_block src e dst) xs,
        Blocks := Blocks f @ map (\<lambda>k. length (heap f) + k) [0 ..< length xs],
        cur := (if xs = [] then cur f else length (heap f) + length xs - 1)\<rparr>)"
proof (induction xs arbitrary: cases f)
  case Nil
  then show ?case by simp
next
  case (Cons x xs)
  obtain i dst where x: "x = (i, dst)" by (cases x)
  show ?case
    apply (simp add: x Cons.IH new_BasicBlock_def NewBr_def set_term_def upd_block_def
        AppendBlock_def NewStore_def append_inst_def case_block_def Let_def del: upt_Suc)
    apply (simp add: enumerate_Suc_eq comp_def split_def map_add_upt_Suc del: upt_Suc)
    done
qed

lemma fpush_loop_enumerate:
  "fpush_loop src e (enumerate 0 ys) [] f =
     (map (\<lambda>i. (ConstInt (int i) I8, length (heap f) + i)) [0 ..< length ys],
      f\<lparr>heap := heap f @ map (case_block src e) ys,
        Blocks := Blocks f @ map (\<lambda>k. length (heap f) + k) [0 ..< length ys],
        cur := (if ys = [] then cur f else length (heap f) + length ys - 1)\<rparr>)"
proof -
  have 1: "map fst (enumerate 0 ys) = [0 ..< length ys]"
    by (simp add: enumerate_eq_zip)
  have 2: "enumerate 0 [0 ..< length ys] = map (\<lambda>i. (i, i)) [0 ..< length ys]"
    by (simp add: enumerate_eq_zip zip_same_conv_map)
  have 3: "map (\<lambda>(i, dst). case_block src e dst) (enumerate 0 ys) = map (case_block src e) ys"
  proof -
    have "map (\<lambda>(i, dst). case_block src e dst) (enumerate 0 ys)
          = map (case_block src e) (map snd (enumerate 0 ys))"
      by (simp only: map_map comp_def split_def)
    also have "map snd (enumerate 0 ys) = ys"
      by (simp add: enumerate_eq_zip)
    finally show ?thesis .
  qed
  have 4: "(enumerate 0 ys = []) = (ys = [])"
    by (cases ys) simp_all
  show ?thesis
    by (simp add: fpush_loop_closed 1 2 3 4 comp_def)
qed

lemmas prim_defs = NewLoad_def new_BasicBlock_def
      NewBr_def NewICmp_def NewCondBr_def AppendBlock_def NewStore_def NewSub_def NewSwitch_def
      NewUnreachable_def append_inst_def set_term_def upd_block_def NewSIToFP_def

lemma new_BasicBlock_rec:
  "new_BasicBlock \<lparr>heap = h, Blocks = bs, cur = c, st = s, fpuStack = fs, ninsts = r\<rparr>
     = (length h, \<lparr>heap = h @ [\<lparr>Insts = [], Term = None\<rparr>], Blocks = bs, cur = c, st = s, fpuStack = fs, ninsts = r\<rparr>)"
  by (simp add: prim_defs)

lemma NewLoad_rec:
  "NewLoad b src \<lparr>heap = h, Blocks = bs, cur = c, st = s, fpuStack = fs, ninsts = r\<rparr>
     = (InstValue r, \<lparr>heap = h[b := (h ! b)\<lparr>Insts := Insts (h ! b) @ [InstLoad r src]\<rparr>], Blocks = bs, cur = c, st = s, fpuStack = fs, ninsts = Suc r\<rparr>)"
  by (simp add: prim_defs)

lemma NewStore_rec:
  "NewStore b v dst \<lparr>heap = h, Blocks = bs, cur = c, st = s, fpuStack = fs, ninsts = r\<rparr>
     = \<lparr>heap = h[b := (h ! b)\<lparr>Insts := Insts (h ! b) @ [InstStore v dst]\<rparr>], Blocks = bs, cur = c, st = s, fpuStack = fs, ninsts = r\<rparr>"
  by (simp add: prim_defs)

lemma NewICmp_rec:
  "NewICmp b pred x y \<lparr>heap = h, Blocks = bs, cur = c, st = s, fpuStack = fs, ninsts = r\<rparr>
     = (InstValue r, \<lparr>heap = h[b := (h ! b)\<lparr>Insts := Insts (h ! b) @ [InstICmp r pred x y]\<rparr>], Blocks = bs, cur = c, st = s, fpuStack = fs, ninsts = Suc r\<rparr>)"
  by (simp add: prim_defs)

lemma NewSub_rec:
  "NewSub b x y \<lparr>heap = h, Blocks = bs, cur = c, st = s, fpuStack = fs, ninsts = r\<rparr>
     = (InstValue r, \<lparr>heap = h[b := (h ! b)\<lparr>Insts := Insts (h ! b) @ [InstSub r x y]\<rparr>], Blocks = bs, cur = c, st = s, fpuStack = fs, ninsts = Suc r\<rparr>)"
  by (simp add: prim_defs)

lemma NewSIToFP_rec:
  "NewSIToFP b x to \<lparr>heap = h, Blocks = bs, cur = c, st = s, fpuStack = fs, ninsts = r\<rparr>
     = (InstValue r, \<lparr>heap = h[b := (h ! b)\<lparr>Insts := Insts (h ! b) @ [InstSIToFP r x to]\<rparr>], Blocks = bs, cur = c, st = s, fpuStack = fs, ninsts = Suc r\<rparr>)"
  by (simp add: prim_defs)

lemma NewBr_rec:
  "NewBr b t \<lparr>heap = h, Blocks = bs, cur = c, st = s, fpuStack = fs, ninsts = r\<rparr>
     = \<lparr>heap = h[b := (h ! b)\<lparr>Term := Some (TermBr t)\<rparr>], Blocks = bs, cur = c, st = s, fpuStack = fs, ninsts = r\<rparr>"
  by (simp add: prim_defs)

lemma NewCondBr_rec:
  "NewCondBr b x t e \<lparr>heap = h, Blocks = bs, cur = c, st = s, fpuStack = fs, ninsts = r\<rparr>
     = \<lparr>heap = h[b := (h ! b)\<lparr>Term := Some (TermCondBr x t e)\<rparr>], Blocks = bs, cur = c, st = s, fpuStack = fs, ninsts = r\<rparr>"
  by (simp add: prim_defs)

lemma NewSwitch_rec:
  "NewSwitch b x d cs \<lparr>heap = h, Blocks = bs, cur = c, st = s, fpuStack = fs, ninsts = r\<rparr>
     = \<lparr>heap = h[b := (h ! b)\<lparr>Term := Some (TermSwitch x d cs)\<rparr>], Blocks = bs, cur = c, st = s, fpuStack = fs, ninsts = r\<rparr>"
  by (simp add: prim_defs)

lemma NewUnreachable_rec:
  "NewUnreachable b \<lparr>heap = h, Blocks = bs, cur = c, st = s, fpuStack = fs, ninsts = r\<rparr>
     = \<lparr>heap = h[b := (h ! b)\<lparr>Term := Some (TermUnreachable)\<rparr>], Blocks = bs, cur = c, st = s, fpuStack = fs, ninsts = r\<rparr>"
  by (simp add: prim_defs)

lemma AppendBlock_rec:
  "AppendBlock b \<lparr>heap = h, Blocks = bs, cur = c, st = s, fpuStack = fs, ninsts = r\<rparr>
     = \<lparr>heap = h, Blocks = bs @ [b], cur = c, st = s, fpuStack = fs, ninsts = r\<rparr>"
  by (simp add: prim_defs)

lemma fpush_loop_rec:
  "fpush_loop src e (enumerate 0 ys) [] \<lparr>heap = h, Blocks = bs, cur = c, st = s, fpuStack = fs, ninsts = r\<rparr>
     = (map (\<lambda>i. (ConstInt (int i) I8, length h + i)) [0 ..< length ys],
        \<lparr>heap = h @ map (case_block src e) ys, Blocks = bs @ map (\<lambda>k. length h + k) [0 ..< length ys], cur = (if ys = [] then c else length h + length ys - 1), st = s, fpuStack = fs, ninsts = r\<rparr>)"
  by (simp add: fpush_loop_enumerate)

lemmas prim_recs = new_BasicBlock_rec NewLoad_rec NewStore_rec NewICmp_rec NewSub_rec NewSIToFP_rec
  NewBr_rec NewCondBr_rec NewSwitch_rec NewUnreachable_rec AppendBlock_rec fpush_loop_rec

lemma fpush_closed_rec:
  assumes "c < length h"
  shows "fpush src \<lparr>heap = h, Blocks = bs, cur = c, st = s, fpuStack = fs, ninsts = r\<rparr> =
     \<lparr>heap = h[c := entry_block \<lparr>heap = h, Blocks = bs, cur = c, st = s, fpuStack = fs, ninsts = r\<rparr>] @ new_blocks src \<lparr>heap = h, Blocks = bs, cur = c, st = s, fpuStack = fs, ninsts = r\<rparr>,
      Blocks = bs @ [length h, length h + 1, length h + 2]
          @ map (\<lambda>k. length h + 4 + k) [0 ..< length fs]
          @ [length h + 4 + length fs, length h + 3],
      cur = length h + 3, st = s, fpuStack = fs, ninsts = r + 4\<rparr>"
  using assms
  apply (simp only: fpush_def)
  apply (simp add: prim_recs list_update_append nth_append entry_block_def new_blocks_def
      del: upt_Suc)
  apply (simp add: Let_def eval_nat_numeral)
  done

lemma fpush_closed:
  assumes "cur f < length (heap f)"
  shows "fpush src f =
     f\<lparr>heap := (heap f)[cur f := entry_block f] @ new_blocks src f,
       Blocks := Blocks f @ [length (heap f), length (heap f) + 1, length (heap f) + 2]
          @ map (\<lambda>k. length (heap f) + 4 + k) [0 ..< length (fpuStack f)]
          @ [length (heap f) + 4 + length (fpuStack f), length (heap f) + 3],
       cur := length (heap f) + 3,
       ninsts := ninsts f + 4\<rparr>"
  using assms by (cases f) (simp add: fpush_closed_rec del: upt_Suc)

lemma length_new_blocks: "length (new_blocks src f) = 5 + length (fpuStack f)"
  by (simp add: new_blocks_def Let_def)

lemma fpush_fields:
  assumes "cur f < length (heap f)"
  shows "cur (fpush src f) = length (heap f) + 3"
    and "st (fpush src f) = st f"
    and "fpuStack (fpush src f) = fpuStack f"
    and "ninsts (fpush src f) = ninsts f + 4"
    and "length (heap (fpush src f)) = length (heap f) + 5 + length (fpuStack f)"
    and "heap (fpush src f) ! cur f = entry_block f"
    and "heap (fpush src f) ! (length (heap f) + 3) = \<lparr>Insts = [], Term = None\<rparr>"
  using assms
  by (simp_all add: fpush_closed [OF assms] length_new_blocks nth_append new_blocks_def Let_def
      del: upt_Suc)

lemma fpush_old_block:
  assumes "cur f < length (heap f)" "b < length (heap f)" "b \<noteq> cur f"
  shows "heap (fpush src f) ! b = heap f ! b"
  using assms by (simp add: fpush_closed [OF assms(1)] nth_append del: upt_Suc)

lemma fpush_new_block:
  assumes "cur f < length (heap f)" "i < 5 + length (fpuStack f)"
  shows "heap (fpush src f) ! (length (heap f) + i) = new_blocks src f ! i"
  using assms by (simp add: fpush_closed [OF assms(1)] nth_append del: upt_Suc)

lemma new_blocks_nth:
  "new_blocks src f ! 0 =
     \<lparr>Insts = [InstStore (ConstInt 7 I8) (st f)], Term = Some (TermBr (length (heap f) + 2))\<rparr>"
  "new_blocks src f ! Suc 0 =
     \<lparr>Insts = [InstSub (ninsts f + 2) (InstValue (ninsts f)) (ConstInt 1 I8),
               InstStore (InstValue (ninsts f + 2)) (st f)],
      Term = Some (TermBr (length (heap f) + 2))\<rparr>"
  "new_blocks src f ! 2 =
     \<lparr>Insts = [InstLoad (ninsts f + 3) (st f)],
      Term = Some (TermSwitch (InstValue (ninsts f + 3)) (length (heap f) + 4 + length (fpuStack f))
           (map (\<lambda>i. (ConstInt (int i) I8, length (heap f) + 4 + i)) [0 ..< length (fpuStack f)]))\<rparr>"
  "new_blocks src f ! 3 = \<lparr>Insts = [], Term = None\<rparr>"
  by (simp_all add: new_blocks_def Let_def del: upt_Suc)

lemma new_blocks_case:
  assumes "i < length (fpuStack f)"
  shows "new_blocks src f ! (4 + i) = case_block src (length (heap f) + 3) (fpuStack f ! i)"
  using assms by (simp add: new_blocks_def Let_def nth_append del: upt_Suc)

lemma new_blocks_default:
  "new_blocks src f ! (4 + length (fpuStack f)) = \<lparr>Insts = [], Term = Some TermUnreachable\<rparr>"
  by (simp add: new_blocks_def Let_def nth_append del: upt_Suc)

subsection \<open>Running the code of one push\<close>

lemma switch_target_append:
  "switch_target v d (xs @ ys) = switch_target v (switch_target v d ys) xs"
  by (induction xs) auto

lemma switch_target_cases:
  assumes "m \<le> 256"
  shows "switch_target (I8V q) d (map (\<lambda>i. (ConstInt (int i) I8, g i)) [0 ..< m])
         = (if unat q < m then g (unat q) else d)"
  using assms
proof (induction m arbitrary: d)
  case 0
  then show ?case by simp
next
  case (Suc m)
  let ?f = "\<lambda>i. (ConstInt (int i) I8, g i)"
  have "unat (word_of_nat m :: 8 word) = m"
    using Suc.prems by (simp add: unat_of_nat)
  then have eq: "((word_of_nat m :: 8 word) = q) = (unat q = m)"
    by (auto simp: word_unat_eq_iff)
  have "switch_target (I8V q) d (map ?f [0 ..< Suc m])
        = switch_target (I8V q) (if unat q = m then g m else d) (map ?f [0 ..< m])"
    by (simp add: switch_target_append eq)
  also have "\<dots> = (if unat q < m then g (unat q) else (if unat q = m then g m else d))"
    using Suc.IH [of "if unat q = m then g m else d"] Suc.prems by simp
  also have "\<dots> = (if unat q < Suc m then g (unat q) else d)"
    by (auto simp: less_Suc_eq)
  finally show ?case .
qed

lemma steps_add:
  "steps k h c = Some c' \<Longrightarrow> steps (k + j) h c = steps j h c'"
  by (induction k arbitrary: c) (auto split: sum.splits)

lemma run_steps:
  "steps k h c = Some c' \<Longrightarrow> run (k + j) h c = run j h c'"
  by (induction k arbitrary: c) (auto split: sum.splits)

lemma steps_numeral:
  "steps (numeral k) h c =
     (case step h c of Inl r \<Rightarrow> None | Inr c' \<Rightarrow> steps (pred_numeral k) h c')"
  by (simp add: numeral_eq_Suc)

lemma eval_value_ok:
  assumes "value_ok n src" "\<forall>r < n. rg' r = rg r"
  shows "eval rg' src = eval rg src"
proof (cases src)
  case (ConstInt x t)
  then show ?thesis by (cases t) simp_all
next
  case (InstValue r)
  then show ?thesis using assms by simp
qed

lemma fpush_steps:
  assumes wf: "cur f < length (heap f)"
    and len: "length (fpuStack f) = 8"
    and src: "eval (regs s) src = Some v" "value_ok (ninsts f) src"
    and ptr: "mem s (st f) = Some (I8V p)" "p \<le> 7"
    and ext: "length (heap (fpush src f)) \<le> length h'"
      "\<forall>b < length (heap (fpush src f)). b \<noteq> cur (fpush src f) \<longrightarrow> h' ! b = heap (fpush src f) ! b"
  shows "\<exists>k s'. k \<le> 10
      \<and> steps k h' (cur f, length (Insts (heap f ! cur f)), s) = Some (cur (fpush src f), 0, s')
      \<and> mem s' = (mem s)(st f \<mapsto> I8V (dec_ptr p), fpuStack f ! unat (dec_ptr p) \<mapsto> v)
      \<and> writes s' = writes s @ [st f, fpuStack f ! unat (dec_ptr p)]
      \<and> (\<forall>r < ninsts f. regs s' r = regs s r)"
proof -
  let ?n = "length (heap f)" and ?r = "ninsts f" and ?c = "cur f"
  let ?q = "dec_ptr p"
  have lenh: "?n + 13 \<le> length h'"
    using ext(1) by (simp add: fpush_fields [OF wf] len)
  have cur': "cur (fpush src f) = ?n + 3"
    by (simp add: fpush_fields [OF wf])
  have agree: "h' ! b = heap (fpush src f) ! b" if "b < ?n + 13" "b \<noteq> ?n + 3" for b
    using ext(2) that by (simp add: fpush_fields [OF wf] len)
  have b0: "h' ! ?c = entry_block f"
    using agree [of ?c] wf by (simp add: fpush_fields [OF wf])
  have new: "h' ! (?n + i) = new_blocks src f ! i" if "i < 13" "i \<noteq> 3" for i
    using agree [of "?n + i"] that fpush_new_block [OF wf, of i src] by (simp add: len)
  have q7: "unat ?q < 8"
    using ptr(2) by (auto simp: dec_ptr_def word_le_nat_alt unat_minus_one)
  have bT: "h' ! ?n = \<lparr>Insts = [InstStore (ConstInt 7 I8) (st f)], Term = Some (TermBr (?n + 2))\<rparr>"
    using new [of 0] by (simp add: new_blocks_nth)
  have bF: "h' ! (?n + 1) =
     \<lparr>Insts = [InstSub (?r + 2) (InstValue ?r) (ConstInt 1 I8), InstStore (InstValue (?r + 2)) (st f)],
      Term = Some (TermBr (?n + 2))\<rparr>"
    using new [of 1] by (simp add: new_blocks_nth)
  have sw: "switch_target (I8V ?q) (?n + 4 + 8)
       (map (\<lambda>i. (ConstInt (int i) I8, ?n + 4 + i)) [0 ..< 8]) = ?n + 4 + unat ?q"
    using switch_target_cases [of 8 ?q "?n + 4 + 8" "\<lambda>i. ?n + 4 + i"] q7 by simp
  have bS: "h' ! (?n + 2) =
     \<lparr>Insts = [InstLoad (?r + 3) (st f)],
      Term = Some (TermSwitch (InstValue (?r + 3)) (?n + 4 + 8)
           (map (\<lambda>i. (ConstInt (int i) I8, ?n + 4 + i)) [0 ..< 8]))\<rparr>"
    using new [of 2] by (simp add: new_blocks_nth len del: upt_Suc)
  have bC: "h' ! (?n + 4 + unat ?q) =
      \<lparr>Insts = [InstStore src (fpuStack f ! unat ?q)], Term = Some (TermBr (?n + 3))\<rparr>"
    using new [of "4 + unat ?q"] q7 new_blocks_case [of "unat ?q" f src]
    by (simp add: len add.assoc case_block_def)
  have ev: "eval rg' src = Some v" if "\<forall>r < ?r. rg' r = regs s r" for rg'
    using eval_value_ok [OF src(2) that] src(1) by simp
  have bound: "\<not> length h' \<le> ?n + i" if "i < 13" for i
    using lenh that by simp
  show ?thesis
  proof (cases "p = 0")
    case True
    show ?thesis
      apply (rule exI [of _ 9])
      using b0 bT bS bC sw bound [of 0] bound [of 2] bound [of "4 + unat ?q"] q7 wf True ptr(1)
      apply (simp add: steps_numeral entry_block_def set_reg_def icmp_def dec_ptr_def cur'
          nth_append ev del: upt_Suc)
      done
  next
    case False
    show ?thesis
      apply (rule exI [of _ 10])
      using b0 bF bS bC sw bound [of 1] bound [of 2] bound [of "4 + unat ?q"] q7 wf False ptr(1)
      apply (simp add: steps_numeral entry_block_def set_reg_def icmp_def sub_def dec_ptr_def cur' uint_0_iff
          nth_append ev del: upt_Suc)
      done
  qed
qed

lemma run_mono:
  "run k h c = r \<Longrightarrow> r \<noteq> OutOfFuel \<Longrightarrow> run (k + j) h c = r"
  by (induction k arbitrary: c) (auto split: sum.splits)

lemma fpush_run:
  assumes wf: "cur f < length (heap f)"
    and len: "length (fpuStack f) = 8"
    and src: "eval (regs s) src = Some v" "value_ok (ninsts f) src"
    and ptr: "mem s (st f) = Some (I8V p)" "p \<le> 7"
  shows "\<exists>s'. (\<forall>k \<ge> 11. run k (heap (fpush src f)) (cur f, length (Insts (heap f ! cur f)), s)
                  = Open (cur (fpush src f)) s')
      \<and> mem s' = (mem s)(st f \<mapsto> I8V (dec_ptr p), fpuStack f ! unat (dec_ptr p) \<mapsto> v)
      \<and> writes s' = writes s @ [st f, fpuStack f ! unat (dec_ptr p)]
      \<and> (\<forall>r < ninsts f. regs s' r = regs s r)"
proof -
  let ?h = "heap (fpush src f)"
  let ?c = "(cur f, length (Insts (heap f ! cur f)), s)"
  obtain k0 s' where k0: "k0 \<le> 10"
    and st: "steps k0 ?h ?c = Some (cur (fpush src f), 0, s')"
    and m: "mem s' = (mem s)(st f \<mapsto> I8V (dec_ptr p), fpuStack f ! unat (dec_ptr p) \<mapsto> v)"
    and w: "writes s' = writes s @ [st f, fpuStack f ! unat (dec_ptr p)]"
    and r: "\<forall>r < ninsts f. regs s' r = regs s r"
    using fpush_steps [OF wf len src ptr, of ?h] by auto
  have stop: "run (Suc j) ?h (cur (fpush src f), 0, s') = Open (cur (fpush src f)) s'" for j
    by (simp add: fpush_fields [OF wf])
  have "run k ?h ?c = Open (cur (fpush src f)) s'" if "k \<ge> 11" for k
  proof -
    have "k = k0 + Suc (k - k0 - 1)"
      using that k0 by simp
    then show ?thesis using run_steps [OF st, of "Suc (k - k0 - 1)"] stop by simp
  qed
  then show ?thesis using m w r by blast
qed

subsection \<open>Successive pushes\<close>

lemma fpush_all_Cons: "fpush_all (src # srcs) f = fpush_all srcs (fpush src f)"
  by (simp add: fpush_all_def)

lemma fpush_all_Nil: "fpush_all [] f = f"
  by (simp add: fpush_all_def)

lemma fpush_all_frame:
  assumes "cur f < length (heap f)"
  shows "cur (fpush_all srcs f) < length (heap (fpush_all srcs f))
    \<and> length (heap f) \<le> length (heap (fpush_all srcs f))
    \<and> st (fpush_all srcs f) = st f
    \<and> fpuStack (fpush_all srcs f) = fpuStack f
    \<and> ninsts f \<le> ninsts (fpush_all srcs f)
    \<and> (cur (fpush_all srcs f) = cur f \<or> length (heap f) \<le> cur (fpush_all srcs f))
    \<and> (\<forall>b < length (heap f). b \<noteq> cur f \<longrightarrow> heap (fpush_all srcs f) ! b = heap f ! b)
    \<and> (srcs \<noteq> [] \<longrightarrow> heap (fpush_all srcs f) ! cur (fpush_all srcs f) = \<lparr>Insts = [], Term = None\<rparr>)"
  using assms
proof (induction srcs arbitrary: f)
  case Nil
  then show ?case by (simp add: fpush_all_Nil)
next
  case (Cons src srcs)
  let ?f1 = "fpush src f"
  have wf1: "cur ?f1 < length (heap ?f1)"
    by (simp add: fpush_fields [OF Cons.prems])
  note IH = Cons.IH [OF wf1]
  have c1: "cur ?f1 = length (heap f) + 3" and l1: "length (heap ?f1) = length (heap f) + 5 + length (fpuStack f)"
    by (simp_all add: fpush_fields [OF Cons.prems])
  have old: "heap (fpush_all srcs ?f1) ! b = heap f ! b" if "b < length (heap f)" "b \<noteq> cur f" for b
  proof -
    have "heap (fpush_all srcs ?f1) ! b = heap ?f1 ! b"
      using IH that c1 l1 by simp
    then show ?thesis using fpush_old_block [OF Cons.prems that] by simp
  qed
  have last: "heap (fpush_all srcs ?f1) ! cur (fpush_all srcs ?f1) = \<lparr>Insts = [], Term = None\<rparr>"
  proof (cases "srcs = []")
    case True
    then show ?thesis by (simp add: fpush_all_Nil fpush_fields [OF Cons.prems])
  next
    case False
    then show ?thesis using IH by simp
  qed
  show ?case
    unfolding fpush_all_Cons
    using IH old last Cons.prems c1 l1
    by (auto simp: fpush_fields [OF Cons.prems])
qed

lemma value_ok_mono: "value_ok n src \<Longrightarrow> n \<le> n' \<Longrightarrow> value_ok n' src"
  by (cases src) auto

lemma dec_ptr_le: "p \<le> 7 \<Longrightarrow> dec_ptr p \<le> 7"
  by (auto simp: dec_ptr_def word_le_nat_alt unat_minus_one)

lemma unat_dec_ptr_less: "p \<le> 7 \<Longrightarrow> unat (dec_ptr p) < 8"
  by (auto simp: dec_ptr_def word_le_nat_alt unat_minus_one)

lemma fpush_all_steps:
  assumes "cur f < length (heap f)"
    and "length (fpuStack f) = 8"
    and "distinct (st f # fpuStack f)"
    and "list_all2 (\<lambda>src v. eval (regs s) src = Some v \<and> value_ok (ninsts f) src) srcs vs"
    and "mem s (st f) = Some (I8V p)" "p \<le> 7"
    and "length (heap (fpush_all srcs f)) \<le> length h'"
    and "\<forall>b < length (heap (fpush_all srcs f)). b \<noteq> cur (fpush_all srcs f)
           \<longrightarrow> h' ! b = heap (fpush_all srcs f) ! b"
  shows "\<exists>k s'. k \<le> 10 * length srcs
      \<and> steps k h' (cur f, length (Insts (heap f ! cur f)), s)
          = Some (cur (fpush_all srcs f),
                  length (Insts (heap (fpush_all srcs f) ! cur (fpush_all srcs f))), s')
      \<and> mem s' = stack_mem (st f) (fpuStack f) p vs (mem s)
      \<and> writes s' = writes s @ stack_writes (st f) (fpuStack f) p (length vs)
      \<and> (\<forall>r < ninsts f. regs s' r = regs s r)"
  using assms
proof (induction srcs arbitrary: f s p vs)
  case Nil
  then show ?case
    by (intro exI [of _ 0]) (simp add: fpush_all_Nil)
next
  case (Cons src srcs)
  let ?f1 = "fpush src f"
  let ?ff = "fpush_all srcs ?f1"
  note wf = Cons.prems(1) and len = Cons.prems(2) and dist = Cons.prems(3)
  obtain v vs' where vs: "vs = v # vs'"
    and src: "eval (regs s) src = Some v" "value_ok (ninsts f) src"
    and rest: "list_all2 (\<lambda>src v. eval (regs s) src = Some v \<and> value_ok (ninsts f) src) srcs vs'"
    using Cons.prems(4) by (auto simp: list_all2_Cons1)
  have wf1: "cur ?f1 < length (heap ?f1)"
    by (simp add: fpush_fields [OF wf])
  note fr = fpush_all_frame [OF wf1, of srcs]
  have ext: "length (heap ?ff) \<le> length h'"
    "\<forall>b < length (heap ?ff). b \<noteq> cur ?ff \<longrightarrow> h' ! b = heap ?ff ! b"
    using Cons.prems(7,8) by (simp_all add: fpush_all_Cons)
  have ext1: "length (heap ?f1) \<le> length h'"
    using ext(1) fr by simp
  have ext1': "\<forall>b < length (heap ?f1). b \<noteq> cur ?f1 \<longrightarrow> h' ! b = heap ?f1 ! b"
  proof (intro allI impI)
    fix b assume b: "b < length (heap ?f1)" "b \<noteq> cur ?f1"
    then have "b \<noteq> cur ?ff" "b < length (heap ?ff)" using fr by auto
    then have "h' ! b = heap ?ff ! b" using ext(2) by simp
    then show "h' ! b = heap ?f1 ! b" using fr b by simp
  qed
  obtain k1 s1 where k1: "k1 \<le> 10"
    and st1: "steps k1 h' (cur f, length (Insts (heap f ! cur f)), s) = Some (cur ?f1, 0, s1)"
    and m1: "mem s1 = (mem s)(st f \<mapsto> I8V (dec_ptr p), fpuStack f ! unat (dec_ptr p) \<mapsto> v)"
    and w1: "writes s1 = writes s @ [st f, fpuStack f ! unat (dec_ptr p)]"
    and r1: "\<forall>r < ninsts f. regs s1 r = regs s r"
    using fpush_steps [OF wf len src Cons.prems(5,6) ext1 ext1'] by auto
  have q: "unat (dec_ptr p) < 8" using unat_dec_ptr_less [OF Cons.prems(6)] .
  have ne: "fpuStack f ! unat (dec_ptr p) \<noteq> st f"
    using dist q len by (auto simp: in_set_conv_nth)
  have ptr1: "mem s1 (st ?f1) = Some (I8V (dec_ptr p))"
    using ne by (simp add: m1 fpush_fields [OF wf])
  have rest1: "list_all2 (\<lambda>src v. eval (regs s1) src = Some v \<and> value_ok (ninsts ?f1) src) srcs vs'"
  proof (rule list_all2_mono [OF rest])
    fix x y
    assume a: "eval (regs s) x = Some y \<and> value_ok (ninsts f) x"
    then have "eval (regs s1) x = Some y"
      using eval_value_ok [of "ninsts f" x "regs s1" "regs s"] r1 by simp
    moreover have "value_ok (ninsts ?f1) x"
      using a by (auto simp: fpush_fields [OF wf] intro: value_ok_mono)
    ultimately show "eval (regs s1) x = Some y \<and> value_ok (ninsts ?f1) x" by simp
  qed
  have cur0: "length (Insts (heap ?f1 ! cur ?f1)) = 0"
    by (simp add: fpush_fields [OF wf])
  obtain k2 s' where k2: "k2 \<le> 10 * length srcs"
    and st2: "steps k2 h' (cur ?f1, 0, s1)
          = Some (cur ?ff, length (Insts (heap ?ff ! cur ?ff)), s')"
    and m2: "mem s' = stack_mem (st ?f1) (fpuStack ?f1) (dec_ptr p) vs' (mem s1)"
    and w2: "writes s' = writes s1 @ stack_writes (st ?f1) (fpuStack ?f1) (dec_ptr p) (length vs')"
    and r2: "\<forall>r < ninsts ?f1. regs s' r = regs s1 r"
    using Cons.IH [OF wf1 _ _ rest1 ptr1 dec_ptr_le [OF Cons.prems(6)] ext] len dist cur0
    by (auto simp: fpush_fields [OF wf])
  have "steps (k1 + k2) h' (cur f, length (Insts (heap f ! cur f)), s)
          = Some (cur ?ff, length (Insts (heap ?ff ! cur ?ff)), s')"
    using steps_add [OF st1, of k2] st2 by simp
  moreover have "k1 + k2 \<le> 10 * length (src # srcs)" using k1 k2 by simp
  moreover have "mem s' = stack_mem (st f) (fpuStack f) p vs (mem s)"
    by (simp add: m2 m1 vs fpush_fields [OF wf])
  moreover have "writes s' = writes s @ stack_writes (st f) (fpuStack f) p (length vs)"
    by (simp add: w2 w1 vs fpush_fields [OF wf])
  moreover have "\<forall>r < ninsts f. regs s' r = regs s r"
    using r1 r2 by (simp add: fpush_fields [OF wf])
  ultimately show ?case
    unfolding fpush_all_Cons by blast
qed

subsection \<open>Eight pushes on the register stack\<close>

lemma word8_le_7_cases:
  assumes "(p :: 8 word) \<le> 7"
  shows "p \<in> {0, 1, 2, 3, 4, 5, 6, 7}"
proof -
  have "unat p \<le> 7" using assms by (simp add: word_le_nat_alt)
  then have "unat p = 0 \<or> unat p = 1 \<or> unat p = 2 \<or> unat p = 3 \<or> unat p = 4
      \<or> unat p = 5 \<or> unat p = 6 \<or> unat p = 7"
    by arith
  then show ?thesis by (auto simp: word_unat_eq_iff)
qed

lemma less_8_cases: "k < 8 \<longleftrightarrow> k \<in> {0, 1, 2, 3, 4, 5, 6, 7 :: nat}"
  by simp arith

lemma length_8_list:
  assumes "length xs = 8"
  obtains a0 a1 a2 a3 a4 a5 a6 a7 where "xs = [a0, a1, a2, a3, a4, a5, a6, a7]"
  using assms by (auto simp: eval_nat_numeral length_Suc_conv)

lemma stack_writes_numeral:
  "stack_writes stc slots p (numeral k) =
     [stc, slots ! unat (dec_ptr p)] @ stack_writes stc slots (dec_ptr p) (pred_numeral k)"
  by (simp add: numeral_eq_Suc)

lemma stack_eight:
  assumes p: "p \<le> 7" and dist: "distinct (stc # slots)"
    and ls: "length slots = 8" and lv: "length vs = 8"
  shows "stack_mem stc slots p vs m stc = Some (I8V p)"
    and "\<forall>k<8. stack_mem stc slots p vs m (slots ! ((unat p + 7 - k) mod 8)) = Some (vs ! k)"
    and "filter (\<lambda>c. c \<noteq> stc) (stack_writes stc slots p 8)
           = map (\<lambda>k. slots ! ((unat p + 7 - k) mod 8)) [0 ..< 8]"
    and "\<forall>i<8. count_list (stack_writes stc slots p 8) (slots ! i) = 1"
    and "count_list (stack_writes stc slots p 8) stc = 8"
proof -
  obtain c0 c1 c2 c3 c4 c5 c6 c7 where s: "slots = [c0, c1, c2, c3, c4, c5, c6, c7]"
    using ls by (rule length_8_list)
  obtain v0 v1 v2 v3 v4 v5 v6 v7 where v: "vs = [v0, v1, v2, v3, v4, v5, v6, v7]"
    using lv by (rule length_8_list)
  have d: "distinct [stc, c0, c1, c2, c3, c4, c5, c6, c7]" using dist s by simp
  then have "distinct (rev [stc, c0, c1, c2, c3, c4, c5, c6, c7])"
    by (simp only: distinct_rev)
  then have d': "distinct [c7, c6, c5, c4, c3, c2, c1, c0, stc]" by simp
  have "\<forall>q \<in> {0, 1, 2, 3, 4, 5, 6, 7 :: 8 word}. stack_mem stc slots q vs m stc = Some (I8V q)"
    using d d' by (simp add: s v dec_ptr_def)
  then show "stack_mem stc slots p vs m stc = Some (I8V p)"
    using word8_le_7_cases [OF p] by blast
  have "\<forall>q \<in> {0, 1, 2, 3, 4, 5, 6, 7 :: 8 word}. \<forall>k \<in> {0, 1, 2, 3, 4, 5, 6, 7 :: nat}.
      stack_mem stc slots q vs m (slots ! ((unat q + 7 - k) mod 8)) = Some (vs ! k)"
    using d d' by (simp add: s v dec_ptr_def)
  then show "\<forall>k<8. stack_mem stc slots p vs m (slots ! ((unat p + 7 - k) mod 8)) = Some (vs ! k)"
    using word8_le_7_cases [OF p] unfolding less_8_cases by blast
  have "\<forall>q \<in> {0, 1, 2, 3, 4, 5, 6, 7 :: 8 word}.
      filter (\<lambda>c. c \<noteq> stc) (stack_writes stc slots q 8)
           = map (\<lambda>k. slots ! ((unat q + 7 - k) mod 8)) [0 ..< 8]"
    using d d' by (simp add: s dec_ptr_def stack_writes_numeral upt_rec [of _ "numeral k" for k]
        upt_rec [of _ "Suc n" for n] del: upt_Suc)
  then show "filter (\<lambda>c. c \<noteq> stc) (stack_writes stc slots p 8)
           = map (\<lambda>k. slots ! ((unat p + 7 - k) mod 8)) [0 ..< 8]"
    using word8_le_7_cases [OF p] by blast
  have "\<forall>q \<in> {0, 1, 2, 3, 4, 5, 6, 7 :: 8 word}. \<forall>i \<in> {0, 1, 2, 3, 4, 5, 6, 7 :: nat}.
      count_list (stack_writes stc slots q 8) (slots ! i) = 1"
    using d d' by (simp add: s dec_ptr_def stack_writes_numeral)
  then show "\<forall>i<8. count_list (stack_writes stc slots p 8) (slots ! i) = 1"
    using word8_le_7_cases [OF p] unfolding less_8_cases by blast
  have "\<forall>q \<in> {0, 1, 2, 3, 4, 5, 6, 7 :: 8 word}. count_list (stack_writes stc slots q 8) stc = 8"
    using d d' by (simp add: s dec_ptr_def stack_writes_numeral)
  then show "count_list (stack_writes stc slots p 8) stc = 8"
    using word8_le_7_cases [OF p] by blast
qed

subsection \<open>The claims on \<open>fpush\<close>\<close>

lemma slot_neq_st:
  assumes "distinct (stc # slots)" "i < length slots"
  shows "slots ! i \<noteq> stc" and "stc \<noteq> slots ! i"
  using assms by auto

lemma slot_neq_slot:
  assumes "distinct (stc # slots)" "i < length slots" "j < length slots" "i \<noteq> j"
  shows "slots ! i \<noteq> slots ! j"
  using assms by (auto simp: nth_eq_iff_index_eq)

lemma dec_ptr_neq: "p \<le> 7 \<Longrightarrow> unat (dec_ptr p) \<noteq> unat p"
  using word8_le_7_cases [of p] by (auto simp: dec_ptr_def)

lemma dec_ptr_neq': "p \<le> 7 \<Longrightarrow> unat p \<noteq> unat (dec_ptr p)"
  using dec_ptr_neq [of p] by simp

lemma unat_less_8: "(p :: 8 word) \<le> 7 \<Longrightarrow> unat p < 8"
  by (simp add: word_le_nat_alt)

text \<open>
  Claim C1. Let the pointer cell hold \<open>p\<close> in 0..7, the pointer cell and the eight slots be
  distinct cells, and the pushed values be available. The code of one push, run from the
  place where it was emitted, reaches the end of the join block with enough fuel. After it
  the pointer is 7 if it was 0 and one less otherwise, the slot of the new pointer holds the
  pushed value, the slot of the previous top and every other slot hold what they held,
  and the new top is the only slot written; so, when no slot held the value before,
  exactly one slot holds it afterwards. The code of eight successive pushes reaches the
  end of the last join block; the pointer is \<open>p\<close> again, every slot was written exactly
  once, in the order \<open>p - 1\<close>, \<open>p - 2\<close>, ... modulo 8, and the slot written by the
  \<open>k\<close>-th push holds the \<open>k\<close>-th value.
\<close>

theorem fpush_eight_wraparound:
  assumes wf: "cur f < length (heap f)"
    and len: "length (fpuStack f) = 8"
    and dist: "distinct (st f # fpuStack f)"
    and src: "eval (regs s) src = Some v" "value_ok (ninsts f) src"
    and srcs: "length srcs = 8"
      "list_all2 (\<lambda>src v. eval (regs s) src = Some v \<and> value_ok (ninsts f) src) srcs vs"
    and ptr: "mem s (st f) = Some (I8V p)" "p \<le> 7"
  shows "\<exists>s1 s8.
      (\<forall>k \<ge> 11. run k (heap (fpush src f)) (cur f, length (Insts (heap f ! cur f)), s)
                  = Open (cur (fpush src f)) s1)
    \<and> mem s1 (st f) = Some (I8V (dec_ptr p))
    \<and> mem s1 (fpuStack f ! unat (dec_ptr p)) = Some v
    \<and> mem s1 (fpuStack f ! unat p) = mem s (fpuStack f ! unat p)
    \<and> (\<forall>i<8. i \<noteq> unat (dec_ptr p) \<longrightarrow> mem s1 (fpuStack f ! i) = mem s (fpuStack f ! i))
    \<and> filter (\<lambda>c. c \<in> set (fpuStack f)) (drop (length (writes s)) (writes s1))
          = [fpuStack f ! unat (dec_ptr p)]
    \<and> ((\<forall>i<8. mem s (fpuStack f ! i) \<noteq> Some v)
          \<longrightarrow> (\<forall>i<8. (mem s1 (fpuStack f ! i) = Some v) = (i = unat (dec_ptr p))))
    \<and> (\<forall>k \<ge> 81. run k (heap (fpush_all srcs f)) (cur f, length (Insts (heap f ! cur f)), s)
                  = Open (cur (fpush_all srcs f)) s8)
    \<and> mem s8 (st f) = Some (I8V p)
    \<and> (\<forall>i<8. count_list (drop (length (writes s)) (writes s8)) (fpuStack f ! i) = 1)
    \<and> filter (\<lambda>c. c \<noteq> st f) (drop (length (writes s)) (writes s8))
          = map (\<lambda>k. fpuStack f ! ((unat p + 7 - k) mod 8)) [0 ..< 8]
    \<and> (\<forall>k<8. mem s8 (fpuStack f ! ((unat p + 7 - k) mod 8)) = Some (vs ! k))"
proof -
  let ?c = "(cur f, length (Insts (heap f ! cur f)), s)"
  let ?q = "unat (dec_ptr p)"
  have q: "?q < 8" using unat_dec_ptr_less [OF ptr(2)] .
  have up: "unat p < 8" using unat_less_8 [OF ptr(2)] .
  obtain s1 where r1: "\<forall>k \<ge> 11. run k (heap (fpush src f)) ?c = Open (cur (fpush src f)) s1"
    and m1: "mem s1 = (mem s)(st f \<mapsto> I8V (dec_ptr p), fpuStack f ! ?q \<mapsto> v)"
    and w1: "writes s1 = writes s @ [st f, fpuStack f ! ?q]"
    using fpush_run [OF wf len src ptr] by blast
  have a1: "mem s1 (st f) = Some (I8V (dec_ptr p))"
    using slot_neq_st [OF dist, of ?q] q len by (simp add: m1)
  have a2: "mem s1 (fpuStack f ! ?q) = Some v"
    by (simp add: m1)
  have a4: "\<forall>i<8. i \<noteq> ?q \<longrightarrow> mem s1 (fpuStack f ! i) = mem s (fpuStack f ! i)"
  proof (intro allI impI)
    fix i :: nat assume i: "i < 8" "i \<noteq> ?q"
    have "fpuStack f ! i \<noteq> st f" "fpuStack f ! i \<noteq> fpuStack f ! ?q"
      using slot_neq_st [OF dist, of i] slot_neq_slot [OF dist, of i ?q] i q len by simp_all
    then show "mem s1 (fpuStack f ! i) = mem s (fpuStack f ! i)" by (simp add: m1)
  qed
  have a3: "mem s1 (fpuStack f ! unat p) = mem s (fpuStack f ! unat p)"
    using a4 up dec_ptr_neq' [OF ptr(2)] by simp
  have a5: "filter (\<lambda>c. c \<in> set (fpuStack f)) (drop (length (writes s)) (writes s1))
          = [fpuStack f ! ?q]"
    using dist q len by (simp add: w1)
  have a6: "(\<forall>i<8. mem s (fpuStack f ! i) \<noteq> Some v)
          \<longrightarrow> (\<forall>i<8. (mem s1 (fpuStack f ! i) = Some v) = (i = ?q))"
    using a2 a4 by auto
  let ?ff = "fpush_all srcs f"
  have lv: "length vs = 8" using srcs by (auto dest: list_all2_lengthD)
  obtain k8 s8 where k8: "k8 \<le> 10 * length srcs"
    and st8: "steps k8 (heap ?ff) ?c = Some (cur ?ff, length (Insts (heap ?ff ! cur ?ff)), s8)"
    and m8: "mem s8 = stack_mem (st f) (fpuStack f) p vs (mem s)"
    and w8: "writes s8 = writes s @ stack_writes (st f) (fpuStack f) p (length vs)"
    using fpush_all_steps [OF wf len dist srcs(2) ptr, of "heap ?ff"] by auto
  have ne: "srcs \<noteq> []" using srcs(1) by auto
  have open8: "heap ?ff ! cur ?ff = \<lparr>Insts = [], Term = None\<rparr>"
    and cur8: "cur ?ff < length (heap ?ff)"
    using fpush_all_frame [OF wf, of srcs] ne by simp_all
  have stop: "run (Suc j) (heap ?ff) (cur ?ff, 0, s8) = Open (cur ?ff) s8" for j
    using cur8 by (simp add: open8)
  have r8: "\<forall>k \<ge> 81. run k (heap ?ff) ?c = Open (cur ?ff) s8"
  proof (intro allI impI)
    fix k :: nat assume "81 \<le> k"
    then have "k = k8 + Suc (k - k8 - 1)" using k8 srcs(1) by simp
    then show "run k (heap ?ff) ?c = Open (cur ?ff) s8"
      using run_steps [OF st8, of "Suc (k - k8 - 1)"] stop by (simp add: open8)
  qed
  note se = stack_eight [OF ptr(2) dist len lv]
  have b1: "mem s8 (st f) = Some (I8V p)" by (simp add: m8 se(1))
  have b2: "\<forall>i<8. count_list (drop (length (writes s)) (writes s8)) (fpuStack f ! i) = 1"
    using se(4) by (simp add: w8 lv)
  have b3: "filter (\<lambda>c. c \<noteq> st f) (drop (length (writes s)) (writes s8))
          = map (\<lambda>k. fpuStack f ! ((unat p + 7 - k) mod 8)) [0 ..< 8]"
    using se(3) by (simp add: w8 lv del: upt_Suc)
  have b4: "\<forall>k<8. mem s8 (fpuStack f ! ((unat p + 7 - k) mod 8)) = Some (vs ! k)"
    using se(2) by (simp add: m8)
  show ?thesis
    using r1 a1 a2 a3 a4 a5 a6 r8 b1 b2 b3 b4 by blast
qed

text \<open>
  Claim C2. \<open>fpush\<close> appends to the block under construction the load of the pointer,
  its comparison with zero and a conditional branch on the result; the true arm stores the
  constant 7 to the pointer cell, the false arm stores the pointer minus one, and both
  arms branch to the same following block. No division or remainder is emitted. Run with
  a pointer \<open>p\<close> in 0..7, the code leaves \<open>(p = 0) ? 7 : p - 1\<close> in the pointer cell and the
  pushed value in the slot of that index.
\<close>

theorem fpush_pointer_branch:
  assumes wf: "cur f < length (heap f)"
    and len: "length (fpuStack f) = 8"
    and dist: "distinct (st f # fpuStack f)"
    and src: "eval (regs s) src = Some v" "value_ok (ninsts f) src"
    and ptr: "mem s (st f) = Some (I8V p)" "p \<le> 7"
  shows "Insts (heap (fpush src f) ! cur f) = Insts (heap f ! cur f) @
            [InstLoad (ninsts f) (st f),
             InstICmp (ninsts f + 1) IntEQ (InstValue (ninsts f)) (ConstInt 0 I8)]
    \<and> Term (heap (fpush src f) ! cur f)
          = Some (TermCondBr (InstValue (ninsts f + 1)) (length (heap f)) (length (heap f) + 1))
    \<and> heap (fpush src f) ! length (heap f)
          = \<lparr>Insts = [InstStore (ConstInt 7 I8) (st f)],
             Term = Some (TermBr (length (heap f) + 2))\<rparr>
    \<and> heap (fpush src f) ! (length (heap f) + 1)
          = \<lparr>Insts = [InstSub (ninsts f + 2) (InstValue (ninsts f)) (ConstInt 1 I8),
                      InstStore (InstValue (ninsts f + 2)) (st f)],
             Term = Some (TermBr (length (heap f) + 2))\<rparr>
    \<and> (\<exists>s'. (\<forall>k \<ge> 11. run k (heap (fpush src f)) (cur f, length (Insts (heap f ! cur f)), s)
                    = Open (cur (fpush src f)) s')
          \<and> mem s' (st f) = Some (I8V (if p = 0 then 7 else p - 1))
          \<and> mem s' (fpuStack f ! unat (if p = 0 then 7 else p - 1)) = Some v)"
proof -
  have e: "heap (fpush src f) ! cur f = entry_block f"
    by (simp add: fpush_fields [OF wf])
  have e1: "Insts (heap (fpush src f) ! cur f) = Insts (heap f ! cur f) @
            [InstLoad (ninsts f) (st f),
             InstICmp (ninsts f + 1) IntEQ (InstValue (ninsts f)) (ConstInt 0 I8)]"
    and e2: "Term (heap (fpush src f) ! cur f)
          = Some (TermCondBr (InstValue (ninsts f + 1)) (length (heap f)) (length (heap f) + 1))"
    by (simp_all add: e entry_block_def)
  have t: "heap (fpush src f) ! length (heap f)
          = \<lparr>Insts = [InstStore (ConstInt 7 I8) (st f)],
             Term = Some (TermBr (length (heap f) + 2))\<rparr>"
    using fpush_new_block [OF wf, of 0 src] by (simp add: new_blocks_nth)
  have f: "heap (fpush src f) ! (length (heap f) + 1)
          = \<lparr>Insts = [InstSub (ninsts f + 2) (InstValue (ninsts f)) (ConstInt 1 I8),
                      InstStore (InstValue (ninsts f + 2)) (st f)],
             Term = Some (TermBr (length (heap f) + 2))\<rparr>"
    using fpush_new_block [OF wf, of 1 src] by (simp add: new_blocks_nth)
  obtain s' where r: "\<forall>k \<ge> 11. run k (heap (fpush src f)) (cur f, length (Insts (heap f ! cur f)), s)
                    = Open (cur (fpush src f)) s'"
    and m: "mem s' = (mem s)(st f \<mapsto> I8V (dec_ptr p), fpuStack f ! unat (dec_ptr p) \<mapsto> v)"
    using fpush_run [OF wf len src ptr] by blast
  have "mem s' (st f) = Some (I8V (dec_ptr p))"
    using slot_neq_st [OF dist, of "unat (dec_ptr p)"] unat_dec_ptr_less [OF ptr(2)] len
    by (simp add: m)
  moreover have "mem s' (fpuStack f ! unat (dec_ptr p)) = Some v"
    by (simp add: m)
  ultimately have sem: "\<exists>s'. (\<forall>k \<ge> 11. run k (heap (fpush src f)) (cur f, length (Insts (heap f ! cur f)), s)
                    = Open (cur (fpush src f)) s')
          \<and> mem s' (st f) = Some (I8V (if p = 0 then 7 else p - 1))
          \<and> mem s' (fpuStack f ! unat (if p = 0 then 7 else p - 1)) = Some v"
    using r unfolding dec_ptr_def by blast
  show ?thesis
    using e1 e2 t f sem by blast
qed

text \<open>
  Claim C3. The following block of \<open>fpush\<close> loads the new pointer and ends in a switch
  on it with exactly the eight cases 0..7, in order; the block of case \<open>i\<close> stores the
  pushed value into slot \<open>i\<close> and branches to the join block, which is left open as the
  block under construction; the default target is a block that is \<open>unreachable\<close>. For
  every pointer in 0..7 the switch selects the case block of that index, and a run that
  starts with such a pointer in the pointer cell never ends in the \<open>unreachable\<close>.
\<close>

theorem fpush_switch_dispatch:
  assumes wf: "cur f < length (heap f)"
    and len: "length (fpuStack f) = 8"
    and src: "eval (regs s) src = Some v" "value_ok (ninsts f) src"
    and ptr: "mem s (st f) = Some (I8V p)" "p \<le> 7"
  shows "heap (fpush src f) ! (length (heap f) + 2)
          = \<lparr>Insts = [InstLoad (ninsts f + 3) (st f)],
             Term = Some (TermSwitch (InstValue (ninsts f + 3)) (length (heap f) + 12)
               [(ConstInt 0 I8, length (heap f) + 4), (ConstInt 1 I8, length (heap f) + 5),
                (ConstInt 2 I8, length (heap f) + 6), (ConstInt 3 I8, length (heap f) + 7),
                (ConstInt 4 I8, length (heap f) + 8), (ConstInt 5 I8, length (heap f) + 9),
                (ConstInt 6 I8, length (heap f) + 10), (ConstInt 7 I8, length (heap f) + 11)])\<rparr>
    \<and> (\<forall>i<8. heap (fpush src f) ! (length (heap f) + 4 + i)
          = \<lparr>Insts = [InstStore src (fpuStack f ! i)], Term = Some (TermBr (length (heap f) + 3))\<rparr>)
    \<and> heap (fpush src f) ! (length (heap f) + 12) = \<lparr>Insts = [], Term = Some TermUnreachable\<rparr>
    \<and> cur (fpush src f) = length (heap f) + 3
    \<and> heap (fpush src f) ! (length (heap f) + 3) = \<lparr>Insts = [], Term = None\<rparr>
    \<and> (\<forall>q \<le> 7. switch_target (I8V q) (length (heap f) + 12)
               [(ConstInt 0 I8, length (heap f) + 4), (ConstInt 1 I8, length (heap f) + 5),
                (ConstInt 2 I8, length (heap f) + 6), (ConstInt 3 I8, length (heap f) + 7),
                (ConstInt 4 I8, length (heap f) + 8), (ConstInt 5 I8, length (heap f) + 9),
                (ConstInt 6 I8, length (heap f) + 10), (ConstInt 7 I8, length (heap f) + 11)]
            = length (heap f) + 4 + unat q)
    \<and> (\<forall>k s'. run k (heap (fpush src f)) (cur f, length (Insts (heap f ! cur f)), s) \<noteq> Trapped s')"
proof -
  let ?n = "length (heap f)"
  let ?h = "heap (fpush src f)"
  have up: "[0 ..< 8] = [0, 1, 2, 3, 4, 5, 6, 7 :: nat]"
    by (simp add: upt_rec [of _ "numeral k" for k] upt_rec [of _ "Suc n" for n] del: upt_Suc)
  let ?cases = "[(ConstInt 0 I8, ?n + 4), (ConstInt 1 I8, ?n + 5),
                (ConstInt 2 I8, ?n + 6), (ConstInt 3 I8, ?n + 7),
                (ConstInt 4 I8, ?n + 8), (ConstInt 5 I8, ?n + 9),
                (ConstInt 6 I8, ?n + 10), (ConstInt 7 I8, ?n + 11)]"
  have cs: "map (\<lambda>i. (ConstInt (int i) I8, ?n + 4 + i)) [0 ..< 8] = ?cases"
    by (simp add: up)
  have c1: "?h ! (?n + 2)
          = \<lparr>Insts = [InstLoad (ninsts f + 3) (st f)],
             Term = Some (TermSwitch (InstValue (ninsts f + 3)) (?n + 12) ?cases)\<rparr>"
    using fpush_new_block [OF wf, of 2 src] cs by (simp add: new_blocks_nth len del: upt_Suc)
  have c2: "\<forall>i<8. ?h ! (?n + 4 + i)
          = \<lparr>Insts = [InstStore src (fpuStack f ! i)], Term = Some (TermBr (?n + 3))\<rparr>"
  proof (intro allI impI)
    fix i :: nat assume "i < 8"
    then show "?h ! (?n + 4 + i)
          = \<lparr>Insts = [InstStore src (fpuStack f ! i)], Term = Some (TermBr (?n + 3))\<rparr>"
      using fpush_new_block [OF wf, of "4 + i" src] new_blocks_case [of i f src]
      by (simp add: len add.assoc case_block_def)
  qed
  have c3: "?h ! (?n + 12) = \<lparr>Insts = [], Term = Some TermUnreachable\<rparr>"
    using fpush_new_block [OF wf, of 12 src] new_blocks_default [of src f] by (simp add: len)
  have c4: "cur (fpush src f) = ?n + 3" and c5: "?h ! (?n + 3) = \<lparr>Insts = [], Term = None\<rparr>"
    by (simp_all add: fpush_fields [OF wf])
  have c6: "\<forall>q \<le> 7. switch_target (I8V q) (?n + 12) ?cases = ?n + 4 + unat q"
    unfolding cs [symmetric]
    using switch_target_cases [of 8 _ "?n + 12" "\<lambda>i. ?n + 4 + i"]
    by (simp add: unat_less_8 del: upt_Suc)
  obtain s1 where r: "\<forall>k \<ge> 11. run k ?h (cur f, length (Insts (heap f ! cur f)), s)
                    = Open (cur (fpush src f)) s1"
    using fpush_run [OF wf len src ptr] by blast
  have c7: "run k ?h (cur f, length (Insts (heap f ! cur f)), s) \<noteq> Trapped s'" for k s'
  proof
    assume "run k ?h (cur f, length (Insts (heap f ! cur f)), s) = Trapped s'"
    then have "run (k + 11) ?h (cur f, length (Insts (heap f ! cur f)), s) = Trapped s'"
      by (rule run_mono) simp
    then show False using r by simp
  qed
  show ?thesis
    using c1 c2 c3 c4 c5 c6 c7 by blast
qed

lemma NewSIToFP_fields:
  assumes "cur f < length (heap f)"
  shows "fst (NewSIToFP (cur f) x to f) = InstValue (ninsts f)"
    and "cur (snd (NewSIToFP (cur f) x to f)) = cur f"
    and "st (snd (NewSIToFP (cur f) x to f)) = st f"
    and "fpuStack (snd (NewSIToFP (cur f) x to f)) = fpuStack f"
    and "ninsts (snd (NewSIToFP (cur f) x to f)) = Suc (ninsts f)"
    and "length (heap (snd (NewSIToFP (cur f) x to f))) = length (heap f)"
    and "Insts (heap (snd (NewSIToFP (cur f) x to f)) ! cur f)
           = Insts (heap f ! cur f) @ [InstSIToFP (ninsts f) x to]"
  using assms by (simp_all add: prim_defs)

text \<open>
  Claim C8. \<open>liftInstFILD\<close> returns no error. It emits, after the code of \<open>useArg\<close>,
  the conversion \<open>sitofp\<close> of the argument to \<open>x86_fp80\<close> and then the code of \<open>fpush\<close>
  for the result of the conversion: run with the argument holding a signed integer and the
  pointer in 0..7, the code reaches the end of the join block, the pointer is decremented
  with wrap-around, the slot of the new pointer holds the converted integer and the other
  slots are unchanged.
\<close>

theorem liftInstFILD_pushes_converted:
  assumes arg: "useArg a f = (arg, f1)"
    and wf: "cur f1 < length (heap f1)"
    and len: "length (fpuStack f1) = 8"
    and dist: "distinct (st f1 # fpuStack f1)"
    and val: "eval (regs s) arg = Some x" "value_ok (ninsts f1) arg"
    and conv: "sitofp x X86_FP80 = Some v"
    and ptr: "mem s (st f1) = Some (I8V p)" "p \<le> 7"
  shows "snd (liftInstFILD useArg a f) = None
    \<and> fst (liftInstFILD useArg a f)
          = fpush (InstValue (ninsts f1)) (snd (NewSIToFP (cur f1) arg X86_FP80 f1))
    \<and> Insts (heap (fst (liftInstFILD useArg a f)) ! cur f1) ! length (Insts (heap f1 ! cur f1))
          = InstSIToFP (ninsts f1) arg X86_FP80
    \<and> (\<exists>s'. (\<forall>k \<ge> 12. run k (heap (fst (liftInstFILD useArg a f)))
                       (cur f1, length (Insts (heap f1 ! cur f1)), s)
                    = Open (cur (fst (liftInstFILD useArg a f))) s')
          \<and> mem s' (st f1) = Some (I8V (dec_ptr p))
          \<and> mem s' (fpuStack f1 ! unat (dec_ptr p)) = Some v
          \<and> (\<forall>i<8. i \<noteq> unat (dec_ptr p) \<longrightarrow> mem s' (fpuStack f1 ! i) = mem s (fpuStack f1 ! i)))"
proof -
  let ?r = "ninsts f1"
  let ?f2 = "snd (NewSIToFP (cur f1) arg X86_FP80 f1)"
  let ?f' = "fpush (InstValue ?r) ?f2"
  let ?s2 = "s\<lparr>regs := (regs s)(?r \<mapsto> v)\<rparr>"
  let ?len = "length (Insts (heap f1 ! cur f1))"
  let ?q = "unat (dec_ptr p)"
  note f2 = NewSIToFP_fields [OF wf, of arg X86_FP80]
  have res: "liftInstFILD useArg a f = (?f', None)"
    by (simp add: liftInstFILD_def arg split_def f2(1) Let_def)
  have wf2: "cur ?f2 < length (heap ?f2)" using wf by (simp add: f2)
  have len2: "length (fpuStack ?f2) = 8" by (simp add: f2 len)
  have ok2: "value_ok (ninsts ?f2) (InstValue ?r)" by (simp add: f2)
  have ev2: "eval (regs ?s2) (InstValue ?r) = Some v" by simp
  have ptr2: "mem ?s2 (st ?f2) = Some (I8V p)" by (simp add: f2 ptr)
  have e: "heap ?f' ! cur f1 = entry_block ?f2"
    using fpush_fields(6) [OF wf2, of "InstValue ?r"] by (simp add: f2)
  have ins: "Insts (heap ?f' ! cur f1) ! ?len = InstSIToFP ?r arg X86_FP80"
    by (simp add: e entry_block_def f2 nth_append)
  have lh: "cur f1 < length (heap ?f')"
    using wf by (simp add: fpush_fields [OF wf2] f2)
  have step1: "step (heap ?f') (cur f1, ?len, s) = Inr (cur f1, Suc ?len, ?s2)"
    using lh by (simp add: ins e entry_block_def f2 val conv set_reg_def)
  obtain k2 s' where k2: "k2 \<le> 10"
    and st2: "steps k2 (heap ?f') (cur ?f2, length (Insts (heap ?f2 ! cur ?f2)), ?s2)
                = Some (cur ?f', 0, s')"
    and m: "mem s' = (mem ?s2)(st ?f2 \<mapsto> I8V (dec_ptr p), fpuStack ?f2 ! ?q \<mapsto> v)"
    using fpush_steps [OF wf2 len2 ev2 ok2 ptr2 ptr(2), of "heap ?f'"] by auto
  have st: "steps (Suc k2) (heap ?f') (cur f1, ?len, s) = Some (cur ?f', 0, s')"
    using st2 by (simp add: step1 f2 del: step.simps)
  have stop: "run (Suc j) (heap ?f') (cur ?f', 0, s') = Open (cur ?f') s'" for j
    by (simp add: fpush_fields [OF wf2])
  have r: "\<forall>k \<ge> 12. run k (heap ?f') (cur f1, ?len, s) = Open (cur ?f') s'"
  proof (intro allI impI)
    fix k :: nat assume "12 \<le> k"
    then have kk: "k = Suc k2 + Suc (k - k2 - 2)" using k2 by simp
    have "run (Suc k2 + Suc (k - k2 - 2)) (heap ?f') (cur f1, ?len, s) = Open (cur ?f') s'"
      by (simp only: run_steps [OF st] stop)
    then show "run k (heap ?f') (cur f1, ?len, s) = Open (cur ?f') s'"
      using kk by (simp only:)
  qed
  have q: "?q < 8" using unat_dec_ptr_less [OF ptr(2)] .
  have m1: "mem s' (st f1) = Some (I8V (dec_ptr p))"
    using slot_neq_st [OF dist, of ?q] q len by (simp add: m f2)
  have m2: "mem s' (fpuStack f1 ! ?q) = Some v"
    by (simp add: m f2)
  have m3: "\<forall>i<8. i \<noteq> ?q \<longrightarrow> mem s' (fpuStack f1 ! i) = mem s (fpuStack f1 ! i)"
  proof (intro allI impI)
    fix i :: nat assume i: "i < 8" "i \<noteq> ?q"
    have "fpuStack f1 ! i \<noteq> st f1" "fpuStack f1 ! i \<noteq> fpuStack f1 ! ?q"
      using slot_neq_st [OF dist, of i] slot_neq_slot [OF dist, of i ?q] i q len by simp_all
    then show "mem s' (fpuStack f1 ! i) = mem s (fpuStack f1 ! i)" by (simp add: m f2)
  qed
  show ?thesis
    unfolding res fst_conv snd_conv
    using ins r m1 m2 m3 by blast
qed

lemmas witness_simps = entry_Func_def start_state_def fpush_fields(1) dec_ptr_def

theorem fpush_pointer_branch_witness:
  "cur entry_Func < length (heap entry_Func)
   \<and> mem (start_state 3) (st entry_Func) = Some (I8V 3) \<and> (3 :: 8 word) \<le> 7
   \<and> mem (start_state 0) (st entry_Func) = Some (I8V 0) \<and> (0 :: 8 word) \<le> 7
   \<and> (\<exists>s'. (\<forall>k \<ge> 11. run k (heap (fpush (ConstInt 42 I8) entry_Func)) (0, 0, start_state 3)
                  = Open 4 s')
          \<and> mem s' 100 = Some (I8V 2) \<and> mem s' 202 = Some (I8V 42))
   \<and> (\<exists>s'. (\<forall>k \<ge> 11. run k (heap (fpush (ConstInt 42 I8) entry_Func)) (0, 0, start_state 0)
                  = Open 4 s')
          \<and> mem s' 100 = Some (I8V 7) \<and> mem s' 207 = Some (I8V 42))"
  using fpush_pointer_branch [where f = entry_Func and s = "start_state 3" and p = 3
      and src = "ConstInt 42 I8" and v = "I8V 42"]
    fpush_pointer_branch [where f = entry_Func and s = "start_state 0" and p = 0
      and src = "ConstInt 42 I8" and v = "I8V 42"]
  by (simp add: witness_simps)

theorem fpush_eight_wraparound_witness:
  "cur entry_Func < length (heap entry_Func)
   \<and> length (fpuStack entry_Func) = 8
   \<and> distinct (st entry_Func # fpuStack entry_Func)
   \<and> eval (regs (start_state 3)) (ConstInt 42 I8) = Some (I8V 42)
   \<and> list_all2 (\<lambda>src v. eval (regs (start_state 3)) src = Some v \<and> value_ok (ninsts entry_Func) src)
         [ConstInt 10 I8, ConstInt 11 I8, ConstInt 12 I8, ConstInt 13 I8,
          ConstInt 14 I8, ConstInt 15 I8, ConstInt 16 I8, ConstInt 17 I8]
         [I8V 10, I8V 11, I8V 12, I8V 13, I8V 14, I8V 15, I8V 16, I8V 17]
   \<and> mem (start_state 3) (st entry_Func) = Some (I8V 3) \<and> (3 :: 8 word) \<le> 7
   \<and> (\<exists>s1 s8.
      (\<forall>k \<ge> 11. run k (heap (fpush (ConstInt 42 I8) entry_Func)) (0, 0, start_state 3) = Open 4 s1)
    \<and> mem s1 100 = Some (I8V 2)
    \<and> mem s1 202 = Some (I8V 42)
    \<and> mem s1 203 = None
    \<and> filter (\<lambda>c. c \<in> set (fpuStack entry_Func)) (writes s1) = [202]
    \<and> (\<forall>k \<ge> 81. run k (heap (fpush_all
            [ConstInt 10 I8, ConstInt 11 I8, ConstInt 12 I8, ConstInt 13 I8,
             ConstInt 14 I8, ConstInt 15 I8, ConstInt 16 I8, ConstInt 17 I8] entry_Func))
            (0, 0, start_state 3)
          = Open (cur (fpush_all
            [ConstInt 10 I8, ConstInt 11 I8, ConstInt 12 I8, ConstInt 13 I8,
             ConstInt 14 I8, ConstInt 15 I8, ConstInt 16 I8, ConstInt 17 I8] entry_Func)) s8)
    \<and> mem s8 100 = Some (I8V 3)
    \<and> filter (\<lambda>c. c \<noteq> 100) (writes s8) = [202, 201, 200, 207, 206, 205, 204, 203])"
proof -
  let ?srcs = "[ConstInt 10 I8, ConstInt 11 I8, ConstInt 12 I8, ConstInt 13 I8,
          ConstInt 14 I8, ConstInt 15 I8, ConstInt 16 I8, ConstInt 17 I8]"
  let ?vs = "[I8V 10, I8V 11, I8V 12, I8V 13, I8V 14, I8V 15, I8V 16, I8V 17]"
  have h: "cur entry_Func < length (heap entry_Func)"
    "length (fpuStack entry_Func) = 8"
    "distinct (st entry_Func # fpuStack entry_Func)"
    "eval (regs (start_state 3)) (ConstInt 42 I8) = Some (I8V 42)"
    "value_ok (ninsts entry_Func) (ConstInt 42 I8)"
    "length ?srcs = 8"
    "list_all2 (\<lambda>src v. eval (regs (start_state 3)) src = Some v \<and> value_ok (ninsts entry_Func) src)
       ?srcs ?vs"
    "mem (start_state 3) (st entry_Func) = Some (I8V 3)" "(3 :: 8 word) \<le> 7"
    by (simp_all add: entry_Func_def start_state_def)
  obtain s1 s8 where
      "\<forall>k \<ge> 11. run k (heap (fpush (ConstInt 42 I8) entry_Func))
           (cur entry_Func, length (Insts (heap entry_Func ! cur entry_Func)), start_state 3)
         = Open (cur (fpush (ConstInt 42 I8) entry_Func)) s1"
    and "mem s1 (st entry_Func) = Some (I8V (dec_ptr 3))"
    and "mem s1 (fpuStack entry_Func ! unat (dec_ptr 3)) = Some (I8V 42)"
    and "mem s1 (fpuStack entry_Func ! unat (3 :: 8 word))
           = mem (start_state 3) (fpuStack entry_Func ! unat (3 :: 8 word))"
    and "filter (\<lambda>c. c \<in> set (fpuStack entry_Func))
           (drop (length (writes (start_state 3))) (writes s1))
          = [fpuStack entry_Func ! unat (dec_ptr 3)]"
    and "\<forall>k \<ge> 81. run k (heap (fpush_all ?srcs entry_Func))
           (cur entry_Func, length (Insts (heap entry_Func ! cur entry_Func)), start_state 3)
         = Open (cur (fpush_all ?srcs entry_Func)) s8"
    and "mem s8 (st entry_Func) = Some (I8V 3)"
    and "filter (\<lambda>c. c \<noteq> st entry_Func) (drop (length (writes (start_state 3))) (writes s8))
          = map (\<lambda>k. fpuStack entry_Func ! ((unat (3 :: 8 word) + 7 - k) mod 8)) [0 ..< 8]"
    using fpush_eight_wraparound [OF h] by blast
  then have
      "\<forall>k \<ge> 11. run k (heap (fpush (ConstInt 42 I8) entry_Func)) (0, 0, start_state 3) = Open 4 s1"
      "mem s1 100 = Some (I8V 2)"
      "mem s1 202 = Some (I8V 42)"
      "mem s1 203 = None"
      "filter (\<lambda>c. c \<in> set (fpuStack entry_Func)) (writes s1) = [202]"
      "\<forall>k \<ge> 81. run k (heap (fpush_all ?srcs entry_Func)) (0, 0, start_state 3)
         = Open (cur (fpush_all ?srcs entry_Func)) s8"
      "mem s8 100 = Some (I8V 3)"
      "filter (\<lambda>c. c \<noteq> 100) (writes s8) = [202, 201, 200, 207, 206, 205, 204, 203]"
    by (simp_all add: witness_simps upt_rec [of _ "numeral k" for k] upt_rec [of _ "Suc n" for n]
        del: upt_Suc)
  then show ?thesis using h by blast
qed

theorem fpush_switch_dispatch_witness:
  "cur entry_Func < length (heap entry_Func)
   \<and> length (fpuStack entry_Func) = 8
   \<and> mem (start_state 5) (st entry_Func) = Some (I8V 5) \<and> (5 :: 8 word) \<le> 7
   \<and> Term (heap (fpush (ConstInt 42 I8) entry_Func) ! 3)
        = Some (TermSwitch (InstValue 3) 13
             [(ConstInt 0 I8, 5), (ConstInt 1 I8, 6), (ConstInt 2 I8, 7), (ConstInt 3 I8, 8),
              (ConstInt 4 I8, 9), (ConstInt 5 I8, 10), (ConstInt 6 I8, 11), (ConstInt 7 I8, 12)])
   \<and> heap (fpush (ConstInt 42 I8) entry_Func) ! 9
        = \<lparr>Insts = [InstStore (ConstInt 42 I8) 204], Term = Some (TermBr 4)\<rparr>
   \<and> heap (fpush (ConstInt 42 I8) entry_Func) ! 13 = \<lparr>Insts = [], Term = Some TermUnreachable\<rparr>
   \<and> (\<forall>s'. run 20 (heap (fpush (ConstInt 42 I8) entry_Func)) (0, 0, start_state 5)
        \<noteq> Trapped s')"
proof -
  have h: "cur entry_Func < length (heap entry_Func)"
    "length (fpuStack entry_Func) = 8"
    "eval (regs (start_state 5)) (ConstInt 42 I8) = Some (I8V 42)"
    "value_ok (ninsts entry_Func) (ConstInt 42 I8)"
    "mem (start_state 5) (st entry_Func) = Some (I8V 5)" "(5 :: 8 word) \<le> 7"
    by (simp_all add: entry_Func_def start_state_def)
  note d = fpush_switch_dispatch [OF h]
  have "heap (fpush (ConstInt 42 I8) entry_Func) ! (length (heap entry_Func) + 2)
          = \<lparr>Insts = [InstLoad (ninsts entry_Func + 3) (st entry_Func)],
             Term = Some (TermSwitch (InstValue (ninsts entry_Func + 3)) (length (heap entry_Func) + 12)
               [(ConstInt 0 I8, length (heap entry_Func) + 4), (ConstInt 1 I8, length (heap entry_Func) + 5),
                (ConstInt 2 I8, length (heap entry_Func) + 6), (ConstInt 3 I8, length (heap entry_Func) + 7),
                (ConstInt 4 I8, length (heap entry_Func) + 8), (ConstInt 5 I8, length (heap entry_Func) + 9),
                (ConstInt 6 I8, length (heap entry_Func) + 10), (ConstInt 7 I8, length (heap entry_Func) + 11)])\<rparr>"
    using d by blast
  then have 1: "Term (heap (fpush (ConstInt 42 I8) entry_Func) ! 3)
        = Some (TermSwitch (InstValue 3) 13
             [(ConstInt 0 I8, 5), (ConstInt 1 I8, 6), (ConstInt 2 I8, 7), (ConstInt 3 I8, 8),
              (ConstInt 4 I8, 9), (ConstInt 5 I8, 10), (ConstInt 6 I8, 11), (ConstInt 7 I8, 12)])"
    by (simp add: entry_Func_def numeral_3_eq_3 [symmetric])
  have cs: "\<forall>i<8. heap (fpush (ConstInt 42 I8) entry_Func) ! (length (heap entry_Func) + 4 + i)
          = \<lparr>Insts = [InstStore (ConstInt 42 I8) (fpuStack entry_Func ! i)],
             Term = Some (TermBr (length (heap entry_Func) + 3))\<rparr>"
    using d by blast
  have "heap (fpush (ConstInt 42 I8) entry_Func) ! (length (heap entry_Func) + 4 + 4)
          = \<lparr>Insts = [InstStore (ConstInt 42 I8) (fpuStack entry_Func ! 4)],
             Term = Some (TermBr (length (heap entry_Func) + 3))\<rparr>"
    using cs [rule_format, of 4] by simp
  then have 2: "heap (fpush (ConstInt 42 I8) entry_Func) ! 9
        = \<lparr>Insts = [InstStore (ConstInt 42 I8) 204], Term = Some (TermBr 4)\<rparr>"
    by (simp add: entry_Func_def)
  have "heap (fpush (ConstInt 42 I8) entry_Func) ! (length (heap entry_Func) + 12)
          = \<lparr>Insts = [], Term = Some TermUnreachable\<rparr>"
    using d by blast
  then have 3: "heap (fpush (ConstInt 42 I8) entry_Func) ! 13 = \<lparr>Insts = [], Term = Some TermUnreachable\<rparr>"
    by (simp add: entry_Func_def)
  have "\<forall>k s'. run k (heap (fpush (ConstInt 42 I8) entry_Func))
          (cur entry_Func, length (Insts (heap entry_Func ! cur entry_Func)), start_state 5) \<noteq> Trapped s'"
    using d by blast
  then have 4: "\<forall>s'. run 20 (heap (fpush (ConstInt 42 I8) entry_Func)) (0, 0, start_state 5)
        \<noteq> Trapped s'"
    by (simp add: entry_Func_def)
  show ?thesis using h 1 2 3 4 by blast
qed

theorem liftInstFILD_pushes_converted_witness:
  "useArg_value (InstValue 0) (entry_Func\<lparr>ninsts := 1\<rparr>) = (InstValue 0, entry_Func\<lparr>ninsts := 1\<rparr>)
   \<and> eval (regs ((start_state 3)\<lparr>regs := [0 \<mapsto> I32V (- 5)]\<rparr>)) (InstValue 0) = Some (I32V (- 5))
   \<and> sitofp (I32V (- 5)) X86_FP80 = Some (F80V (- 5))
   \<and> snd (liftInstFILD useArg_value (InstValue 0) (entry_Func\<lparr>ninsts := 1\<rparr>)) = None
   \<and> (\<exists>s'. (\<forall>k \<ge> 12. run k (heap (fst (liftInstFILD useArg_value (InstValue 0)
                      (entry_Func\<lparr>ninsts := 1\<rparr>))))
                    (0, 0, (start_state 3)\<lparr>regs := [0 \<mapsto> I32V (- 5)]\<rparr>)
                 = Open 4 s')
          \<and> mem s' 100 = Some (I8V 2)
          \<and> mem s' 202 = Some (F80V (- 5)))"
proof -
  let ?f = "entry_Func\<lparr>ninsts := 1\<rparr>"
  let ?s = "(start_state 3)\<lparr>regs := [0 \<mapsto> I32V (- 5)]\<rparr>"
  have h: "useArg_value (InstValue 0) ?f = (InstValue 0, ?f)"
    "cur ?f < length (heap ?f)"
    "length (fpuStack ?f) = 8"
    "distinct (st ?f # fpuStack ?f)"
    "eval (regs ?s) (InstValue 0) = Some (I32V (- 5))"
    "value_ok (ninsts ?f) (InstValue 0)"
    "sitofp (I32V (- 5)) X86_FP80 = Some (F80V (- 5))"
    "mem ?s (st ?f) = Some (I8V 3)" "(3 :: 8 word) \<le> 7"
    by (simp_all add: entry_Func_def start_state_def useArg_value_def)
  note d = liftInstFILD_pushes_converted [where useArg = useArg_value and a = "InstValue 0"
      and f = ?f, OF h]
  have res: "fst (liftInstFILD useArg_value (InstValue 0) ?f)
      = fpush (InstValue (ninsts ?f)) (snd (NewSIToFP (cur ?f) (InstValue 0) X86_FP80 ?f))"
    and none: "snd (liftInstFILD useArg_value (InstValue 0) ?f) = None"
    using d by blast+
  have c: "cur (fst (liftInstFILD useArg_value (InstValue 0) ?f)) = 4"
    unfolding res by (simp add: fpush_fields(1) entry_Func_def prim_defs)
  obtain s' where
    "\<forall>k \<ge> 12. run k (heap (fst (liftInstFILD useArg_value (InstValue 0) ?f)))
         (cur ?f, length (Insts (heap ?f ! cur ?f)), ?s)
       = Open (cur (fst (liftInstFILD useArg_value (InstValue 0) ?f))) s'"
    and "mem s' (st ?f) = Some (I8V (dec_ptr 3))"
    and "mem s' (fpuStack ?f ! unat (dec_ptr 3)) = Some (F80V (- 5))"
    using d by blast
  then have "\<forall>k \<ge> 12. run k (heap (fst (liftInstFILD useArg_value (InstValue 0) ?f)))
         (cur ?f, length (Insts (heap ?f ! cur ?f)), ?s)
       = Open 4 s'"
    and "mem s' (st ?f) = Some (I8V (dec_ptr 3))"
    and "mem s' (fpuStack ?f ! unat (dec_ptr 3)) = Some (F80V (- 5))"
    by (simp_all only: c)
  then have "\<forall>k \<ge> 12. run k (heap (fst (liftInstFILD useArg_value (InstValue 0) ?f))) (0, 0, ?s)
       = Open 4 s'"
    and "mem s' 100 = Some (I8V 2)"
    and "mem s' 202 = Some (F80V (- 5))"
    by (simp_all add: entry_Func_def dec_ptr_def)
  then show ?thesis using h(1,5,7) none by blast
qed

end
